theory Spec2Isabelle
  imports Complex_Main "HOL-Library.Sublist" "HOL-Library.Multiset"
begin

section \<open>Python strings and paths\<close>

text \<open>
  Paths are Python \<open>str\<close> values, modelled as \<open>string\<close>. The patterns the loader
  searches for are ASCII, so replacing on bytes and on code points agree.
\<close>

definition endswith :: "string \<Rightarrow> string \<Rightarrow> bool" where
  "endswith s suf = suffix suf s"

definition contains :: "string \<Rightarrow> string \<Rightarrow> bool" where
  \<comment> \<open>\<open>sub in s\<close>\<close>
  "contains s sub = sublist sub s"

text \<open>
  \<open>s.replace(old, new)\<close>: every non-overlapping occurrence of \<open>old\<close>, scanning from the
  left. With an empty \<open>old\<close> Python inserts \<open>new\<close> around every character; the loader
  only passes non-empty literals, and the model leaves \<open>s\<close> unchanged there.
\<close>

function replace :: "string \<Rightarrow> string \<Rightarrow> string \<Rightarrow> string" where
  "replace old new [] = []"
| "replace old new (c # cs) =
     (if old \<noteq> [] \<and> prefix old (c # cs)
      then new @ replace old new (drop (length old) (c # cs))
      else c # replace old new cs)"
  by pat_completeness auto
termination
  by (relation "measure (\<lambda>(old, new, s). length s)") (auto simp: Suc_le_eq)

text \<open>\<open>os.path.join(a, b)\<close> on POSIX, for two components.\<close>

definition path_join :: "string \<Rightarrow> string \<Rightarrow> string" where
  "path_join a b =
     (if prefix ''/'' b then b
      else if a = [] \<or> endswith a ''/'' then a @ b
      else a @ ''/'' @ b)"

section \<open>Middlebury dataset\<close>

record EntityMiddlebury =
  mb_disparity :: string
  mb_left :: string
  mb_right :: string

definition EntityMiddlebury_init :: "string \<Rightarrow> string \<Rightarrow> string \<Rightarrow> EntityMiddlebury" where
  "EntityMiddlebury_init d l r = \<lparr>mb_disparity = d, mb_left = l, mb_right = r\<rparr>"

text \<open>
  \<open>MiddleburyDataset.__init__\<close>. The directory tree is what \<open>os.walk(folder)\<close> yields:
  a list of \<open>(root, dirs, files)\<close>. The three nested loops append to \<open>input_list\<close>.
\<close>

type_synonym walk = "(string \<times> string list \<times> string list) list"

fun mb_range :: "nat \<Rightarrow> string \<Rightarrow> string \<Rightarrow> EntityMiddlebury list \<Rightarrow> EntityMiddlebury list" where
  \<comment> \<open>\<open>for i in range(n): input_list.append(EntityMiddlebury(...))\<close>\<close>
  "mb_range 0 rootdir file input_list = input_list"
| "mb_range (Suc n) rootdir file input_list =
     mb_range n rootdir file
       (input_list @
        [EntityMiddlebury_init
           (path_join rootdir file)
           (path_join rootdir (replace ''pfm'' ''png'' (replace ''disp0'' ''im0'' file)))
           (path_join rootdir (replace ''pfm'' ''png'' (replace ''disp0'' ''im1'' file)))])"

fun mb_files :: "string \<Rightarrow> string list \<Rightarrow> EntityMiddlebury list \<Rightarrow> EntityMiddlebury list" where
  "mb_files rootdir [] input_list = input_list"
| "mb_files rootdir (file # files) input_list =
     mb_files rootdir files
       (if endswith file ''disp0.pfm'' then mb_range 100 rootdir file input_list else input_list)"

fun mb_walk :: "walk \<Rightarrow> EntityMiddlebury list \<Rightarrow> EntityMiddlebury list" where
  "mb_walk [] input_list = input_list"
| "mb_walk ((rootdir, dirs, files) # rest) input_list = mb_walk rest (mb_files rootdir files input_list)"

definition MiddleburyDataset_init :: "walk \<Rightarrow> EntityMiddlebury list" where
  "MiddleburyDataset_init w = mb_walk w []"

text \<open>The descriptor one disparity file stands for, and the matching files of a tree in walk order.\<close>

definition mb_entity :: "string \<Rightarrow> string \<Rightarrow> EntityMiddlebury" where
  "mb_entity rootdir file =
     \<lparr>mb_disparity = path_join rootdir file,
      mb_left = path_join rootdir (replace ''pfm'' ''png'' (replace ''disp0'' ''im0'' file)),
      mb_right = path_join rootdir (replace ''pfm'' ''png'' (replace ''disp0'' ''im1'' file))\<rparr>"

definition mb_matches :: "walk \<Rightarrow> (string \<times> string) list" where
  "mb_matches w =
     concat (map (\<lambda>(rootdir, dirs, files).
       map (\<lambda>file. (rootdir, file)) (filter (\<lambda>file. endswith file ''disp0.pfm'') files)) w)"

section \<open>Random sources\<close>

text \<open>
  The code draws from the hidden generators of \<open>random\<close> and \<open>torch\<close>. The model makes
  the source explicit: an infinite tape of raw draws and a read position; every draw
  reads one cell and advances. Any outcome of a draw is the value of some tape.
\<close>

record rng =
  tape :: "nat \<Rightarrow> nat"
  pos :: nat

definition draw :: "rng \<Rightarrow> nat \<times> rng" where
  "draw g = (tape g (pos g), g\<lparr>pos := Suc (pos g)\<rparr>)"

definition py_randint :: "int \<Rightarrow> int \<Rightarrow> rng \<Rightarrow> int \<times> rng" where
  \<comment> \<open>\<open>random.randint(a, b)\<close>, both ends included; every call site has \<open>a \<le> b\<close>\<close>
  "py_randint a b g = (case draw g of (r, g') \<Rightarrow> (a + int (r mod nat (b - a + 1)), g'))"

text \<open>
  Python floats are IEEE 754 doubles. \<open>random.random()\<close> returns \<open>k / 2 ^ 53\<close> for an
  integer \<open>0 \<le> k < 2 ^ 53\<close>, and every double the loader computes from it is a
  non-negative multiple of \<open>2 ^ -53\<close>. Such a double is given by its numerator over
  \<open>2 ^ 53\<close>; a double has 53 significant bits, and an arithmetic result that needs more
  is rounded to the nearest double, ties to the even one.
\<close>

type_synonym double53 = nat

fun bitlen :: "nat \<Rightarrow> nat" where
  \<comment> \<open>the number of binary digits of \<open>n\<close>\<close>
  "bitlen n = (if n = 0 then 0 else Suc (bitlen (n div 2)))"

declare bitlen.simps [simp del]

definition round_half_even :: "nat \<Rightarrow> nat \<Rightarrow> nat" where
  \<comment> \<open>\<open>m / 2 ^ e\<close> rounded to the nearest integer, ties to even\<close>
  "round_half_even m e =
     (let q = m div 2 ^ e; r = m mod 2 ^ e
      in if 2 * r > 2 ^ e \<or> (2 * r = 2 ^ e \<and> odd q) then q + 1 else q)"

definition fl_round :: "nat \<Rightarrow> double53" where
  \<comment> \<open>the double nearest to \<open>m / 2 ^ 53\<close>: \<open>m\<close> rounded to 53 significant bits\<close>
  "fl_round m = (let e = bitlen m - 53 in round_half_even m e * 2 ^ e)"

definition fl_mul :: "double53 \<Rightarrow> nat \<Rightarrow> double53" where
  \<comment> \<open>\<open>x * c\<close> for an integer constant \<open>c\<close>: the exact product, rounded\<close>
  "fl_mul x c = fl_round (x * c)"

definition fl_mod :: "double53 \<Rightarrow> nat \<Rightarrow> double53" where
  \<comment> \<open>\<open>x % c\<close> for an integer constant \<open>c > 0\<close>: the remainder of floats is exact\<close>
  "fl_mod x c = x mod (c * 2 ^ 53)"

definition fl_int :: "double53 \<Rightarrow> int" where
  \<comment> \<open>\<open>int(x)\<close>: truncation\<close>
  "fl_int x = int (x div 2 ^ 53)"

definition fl_value :: "double53 \<Rightarrow> real" where
  "fl_value x = real x / 2 ^ 53"

definition py_random :: "rng \<Rightarrow> double53 \<times> rng" where
  \<comment> \<open>\<open>random.random()\<close>: a multiple of \<open>2 ^ -53\<close> in \<open>[0, 1)\<close>\<close>
  "py_random g = (case draw g of (r, g') \<Rightarrow> (r mod 2 ^ 53, g'))"

text \<open>\<open>torch.randperm(n)\<close>: the elements of \<open>[0, n)\<close>, each picked from those still left.\<close>

function randperm_from :: "nat list \<Rightarrow> rng \<Rightarrow> nat list \<times> rng" where
  "randperm_from pool g =
     (if pool = [] then ([], g)
      else case draw g of (r, g1) \<Rightarrow>
        (case randperm_from (take (r mod length pool) pool @ drop (Suc (r mod length pool)) pool) g1
         of (rest, g2) \<Rightarrow> (pool ! (r mod length pool) # rest, g2)))"
  by pat_completeness auto
termination
proof (relation "measure (\<lambda>(pool, g). length pool)")
  show "wf (measure (\<lambda>(pool, g). length pool))"
    by simp
next
  fix pool :: "nat list" and g :: rng and x :: nat and y :: rng
  assume "pool \<noteq> []"
  then have "x mod length pool < length pool"
    by simp
  then show "((take (x mod length pool) pool @ drop (Suc (x mod length pool)) pool, y), (pool, g))
             \<in> measure (\<lambda>(pool, g). length pool)"
    by simp
qed

declare randperm_from.simps [simp del]

definition randperm :: "nat \<Rightarrow> rng \<Rightarrow> nat list \<times> rng" where
  "randperm n g = randperm_from [0..<n] g"

section \<open>Sparse point sampler\<close>

text \<open>
  The lines shared by \<open>EntityFlying3d.get_item\<close> (with \<open>H, W = 540, 720\<close>) and
  \<open>Ethe3dEntity.get_item\<close> (with \<open>H, W = min(H, 540), min(W, 720)\<close>):
  \<^verbatim>\<open>
  indices = torch.randperm(H * W)[:5000]
  u = indices % W
  v = indices // W
  \<close>
\<close>

definition sample_uv :: "nat \<Rightarrow> nat \<Rightarrow> rng \<Rightarrow> (nat list \<times> nat list) \<times> rng" where
  "sample_uv H W g =
     (case randperm (H * W) g of (perm, g') \<Rightarrow>
        (let indices = take 5000 perm;
             u = map (\<lambda>i. i mod W) indices;
             v = map (\<lambda>i. i div W) indices
         in ((u, v), g')))"

section \<open>Errors\<close>

datatype error =
  IndexError | KeyError | TypeError | ValueError | AttributeError | FileNotFoundError
  | RuntimeError

definition bnd :: "error + 'a \<Rightarrow> ('a \<Rightarrow> error + 'b) \<Rightarrow> error + 'b" where
  \<comment> \<open>sequencing: an exception raised by the first step skips the rest\<close>
  "bnd m f = (case m of Inl e \<Rightarrow> Inl e | Inr x \<Rightarrow> f x)"

definition idx :: "'a list \<Rightarrow> nat \<Rightarrow> error + 'a" where
  \<comment> \<open>\<open>xs[i]\<close> for a literal \<open>i \<ge> 0\<close>\<close>
  "idx xs i = (if i < length xs then Inr (xs ! i) else Inl IndexError)"

section \<open>Synthetic descriptors\<close>

datatype target = Rgb | Nir

record EntityFlying3d =
  images :: "string list"
  disparity :: "string list"
  guided_noise :: "int option"
  gamma_noise :: "real option"
  shift_filter :: bool
  vertical_scale :: bool
  noise_target :: target
  shift_distance :: int
  disparity_right :: bool
  rgb_gt :: "string list option"

text \<open>
  \<open>EntityFlying3d.__init__\<close>: stores its arguments and draws \<open>shift_distance\<close>. The
  defaults of the Python signature are written out at every call.
\<close>

definition EntityFlying3d_init ::
  "string list \<Rightarrow> string list \<Rightarrow> int option \<Rightarrow> real option \<Rightarrow> bool \<Rightarrow> bool \<Rightarrow> target
   \<Rightarrow> bool \<Rightarrow> string list option \<Rightarrow> rng \<Rightarrow> EntityFlying3d \<times> rng" where
  "EntityFlying3d_init imgs disp gn gam sf vs nt dr gt g =
     (case py_randint 8 16 g of (d, g') \<Rightarrow>
        (\<lparr>images = imgs, disparity = disp, guided_noise = gn, gamma_noise = gam,
          shift_filter = sf, vertical_scale = vs, noise_target = nt, shift_distance = d,
          disparity_right = dr, rgb_gt = gt\<rparr>, g'))"

section \<open>Manifest loader\<close>

record StereoDatasetArgs =
  args_folder :: string
  args_flow3d_driving_json :: bool
  args_flying3d_json :: bool
  args_fast_test :: bool
  args_synth_no_filter :: bool
  args_synth_no_rgb :: bool
  args_validate_json :: bool
  args_noised_input :: bool
  args_shift_filter :: bool
  args_vertical_scale :: bool
  args_rgb_rendered :: bool
  args_disparity_right :: bool
  args_rgb_gt :: bool
  args_use_rendered_nir :: bool

text \<open>
  A manifest record is a dictionary in insertion order. Its path fields are lists of
  strings; the loader itself stores a tuple under \<open>nir\<close>. \<open>POther\<close> stands for numbers,
  booleans and \<open>null\<close>. The loader indexes, iterates and unpacks its path fields: a
  string used this way is the sequence of its characters, and a \<open>POther\<close> value is no
  sequence (\<open>TypeError\<close>).
\<close>

datatype pyval = PStr string | PList "string list" | PTuple "string list" | POther

type_synonym entry = "(string \<times> pyval) list"

definition has_key :: "entry \<Rightarrow> string \<Rightarrow> bool" where
  "has_key e k = (map_of e k \<noteq> None)"

definition get_list :: "entry \<Rightarrow> string \<Rightarrow> error + string list" where
  "get_list e k =
     (case map_of e k of
        None \<Rightarrow> Inl KeyError
      | Some (PList xs) \<Rightarrow> Inr xs
      | Some (PTuple xs) \<Rightarrow> Inr xs
      | Some (PStr s) \<Rightarrow> Inr (map (\<lambda>c. [c]) s)
      | Some POther \<Rightarrow> Inl TypeError)"

definition set_key :: "entry \<Rightarrow> string \<Rightarrow> pyval \<Rightarrow> entry" where
  \<comment> \<open>\<open>entry[k] = v\<close>: a new key goes last\<close>
  "set_key e k v = (if has_key e k then map (\<lambda>(k', v'). if k' = k then (k', v) else (k', v')) e
                    else e @ [(k, v)])"

text \<open>
  The file system as the loader sees it: \<open>os.path.exists\<close>, \<open>json.load(open(f))\<close>
  (an error when the file cannot be opened or parsed), and whether \<open>pfmread.readPFM\<close>
  returns on a path.
\<close>

record fs =
  fs_exists :: "string \<Rightarrow> bool"
  fs_json :: "string \<Rightarrow> error + entry list"
  fs_pfm_ok :: "string \<Rightarrow> bool"

definition json_dump_entry :: "entry \<Rightarrow> entry" where
  \<comment> \<open>what a record reads back as after \<open>json.dump\<close>: a tuple is written as a list\<close>
  "json_dump_entry e = map (\<lambda>(k, v). (k, case v of PTuple xs \<Rightarrow> PList xs | _ \<Rightarrow> v)) e"

record lstate =
  entries :: "EntityFlying3d list"
  validate_entries :: "entry list"
  error_cnt :: int
  rand :: rng

fun str_digit :: "nat \<Rightarrow> string" where
  \<comment> \<open>\<open>f"{i}"\<close> for the indices \<open>0..9\<close> the loader formats\<close>
  "str_digit i = [char_of (48 + i)]"

definition render_path :: "string \<Rightarrow> string \<Rightarrow> nat \<Rightarrow> string" where
  \<comment> \<open>\<open>rgb0.replace("frames_cleanpass", marker).replace(".png", f"_{i}.png")\<close>\<close>
  "render_path rgb0 marker i =
     replace ''.png'' (''_'' @ str_digit i @ ''.png'') (replace ''frames_cleanpass'' marker rgb0)"

fun probe_render :: "fs \<Rightarrow> string \<Rightarrow> string \<Rightarrow> nat list \<Rightarrow> int" where
  \<comment> \<open>\<open>for ir in range(10): i = 9 - ir; ... if both exist: found = i; break\<close>, from \<open>-1\<close>\<close>
  "probe_render fs rgb0 marker [] = - 1"
| "probe_render fs rgb0 marker (i # rest) =
     (let render_left = render_path rgb0 marker i;
          render_right = replace ''left'' ''right'' render_left
      in if fs_exists fs render_left \<and> fs_exists fs render_right then int i
         else probe_render fs rgb0 marker rest)"

definition rendered_noise :: "StereoDatasetArgs \<Rightarrow> rng \<Rightarrow> int option \<times> rng" where
  \<comment> \<open>\<open>random.randint(3, 8) if self.args.noised_input else None\<close>\<close>
  "rendered_noise a g =
     (if args_noised_input a then (case py_randint 3 8 g of (n, g') \<Rightarrow> (Some n, g'))
      else (None, g))"

definition gt_of :: "StereoDatasetArgs \<Rightarrow> string list \<Rightarrow> string list option" where
  \<comment> \<open>\<open>entry["rgb"] if self.args.rgb_gt else None\<close>\<close>
  "gt_of a rgb = (if args_rgb_gt a then Some rgb else None)"

fun rendered_nir_loop ::
  "StereoDatasetArgs \<Rightarrow> string list \<Rightarrow> string \<Rightarrow> error + string list \<Rightarrow> string \<Rightarrow> nat list
   \<Rightarrow> EntityFlying3d list \<times> rng \<Rightarrow> error + EntityFlying3d list \<times> rng" where
  \<comment> \<open>\<open>for inr in range(ir_nir): self.entries.append(...)\<close>; \<open>disp\<close> is \<open>entry["disparity"]\<close>,
     looked up at each construction\<close>
  "rendered_nir_loop a rgb rgb0 disp render [] (es, g) = Inr (es, g)"
| "rendered_nir_loop a rgb rgb0 disp render (inr # rest) (es, g) =
     (let render_nir = render_path rgb0 ''frame_shaded_nir'' inr in
      bnd disp (\<lambda>dp.
      case rendered_noise a g of (gn, g1) \<Rightarrow>
      case EntityFlying3d_init
             [render, replace ''left'' ''right'' render,
              render_nir, replace ''left'' ''right'' render_nir]
             dp gn None (args_shift_filter a) (args_vertical_scale a) Rgb
             (args_disparity_right a) (gt_of a rgb) g1
      of (d, g2) \<Rightarrow> rendered_nir_loop a rgb rgb0 disp render rest (es @ [d], g2)))"

fun rendered_loop ::
  "StereoDatasetArgs \<Rightarrow> string list \<Rightarrow> string \<Rightarrow> string list \<Rightarrow> error + string list \<Rightarrow> int
   \<Rightarrow> nat list \<Rightarrow> EntityFlying3d list \<times> rng \<Rightarrow> error + EntityFlying3d list \<times> rng" where
  \<comment> \<open>\<open>for ir in range(ir_gb): ...\<close>\<close>
  "rendered_loop a rgb rgb0 nir disp ir_nir [] (es, g) = Inr (es, g)"
| "rendered_loop a rgb rgb0 nir disp ir_nir (ir # rest) (es, g) =
     (let render = render_path rgb0 ''frame_shaded'' ir in
      if args_use_rendered_nir a
      then bnd (rendered_nir_loop a rgb rgb0 disp render [0..<nat ir_nir] (es, g))
             (rendered_loop a rgb rgb0 nir disp ir_nir rest)
      else bnd (idx nir 0) (\<lambda>nir0. bnd (idx nir 1) (\<lambda>nir1. bnd disp (\<lambda>dp.
             case rendered_noise a g of (gn, g1) \<Rightarrow>
             case EntityFlying3d_init
                    [render, replace ''left'' ''right'' render, nir0, nir1]
                    dp gn None (args_shift_filter a) (args_vertical_scale a) Rgb
                    (args_disparity_right a) (gt_of a rgb) g1
             of (d, g2) \<Rightarrow> rendered_loop a rgb rgb0 nir disp ir_nir rest (es @ [d], g2)))))"

definition noised_one ::
  "StereoDatasetArgs \<Rightarrow> string list \<Rightarrow> string list \<Rightarrow> string list \<Rightarrow> rng \<Rightarrow> EntityFlying3d \<times> rng" where
  \<comment> \<open>one \<open>EntityFlying3d(...)\<close> of the noised duplicates; \<open>noise_target=t\<close> is commented out\<close>
  "noised_one a rgb nir_ambient disp g =
     (case py_random g of (r1, g1) \<Rightarrow>
      case py_random g1 of (r2, g2) \<Rightarrow>
        EntityFlying3d_init (rgb @ nir_ambient) disp
          (Some (fl_int (fl_mod (fl_mul r1 100) 20))) (Some (fl_value (fl_mul r2 2)))
          (args_shift_filter a) (args_vertical_scale a) Rgb
          (args_disparity_right a) (gt_of a rgb) g2)"

fun noised_targets ::
  "StereoDatasetArgs \<Rightarrow> string list \<Rightarrow> string list \<Rightarrow> string list \<Rightarrow> target list
   \<Rightarrow> EntityFlying3d list \<times> rng \<Rightarrow> EntityFlying3d list \<times> rng" where
  \<comment> \<open>\<open>for t in ["rgb", "nir"]: self.entries.append(...)\<close>\<close>
  "noised_targets a rgb nir_ambient disp [] (es, g) = (es, g)"
| "noised_targets a rgb nir_ambient disp (t # ts) (es, g) =
     (case noised_one a rgb nir_ambient disp g of (d, g') \<Rightarrow>
        noised_targets a rgb nir_ambient disp ts (es @ [d], g'))"

fun noised_rounds ::
  "StereoDatasetArgs \<Rightarrow> string list \<Rightarrow> string list \<Rightarrow> string list \<Rightarrow> nat
   \<Rightarrow> EntityFlying3d list \<times> rng \<Rightarrow> EntityFlying3d list \<times> rng" where
  \<comment> \<open>\<open>for _ in range(n): for t in ["rgb", "nir"]: ...\<close>\<close>
  "noised_rounds a rgb nir_ambient disp 0 (es, g) = (es, g)"
| "noised_rounds a rgb nir_ambient disp (Suc n) (es, g) =
     noised_rounds a rgb nir_ambient disp n
       (noised_targets a rgb nir_ambient disp [Rgb, Nir] (es, g))"

fun check_items :: "fs \<Rightarrow> entry \<Rightarrow> error + bool" where
  \<comment> \<open>the \<open>for key, value in entry.items()\<close> loop of validation, \<open>break\<close> included\<close>
  "check_items fs [] = Inr True"
| "check_items fs ((k, PStr s) # rest) =
     (if \<not> fs_exists fs s then Inr False else check_items fs rest)"
| "check_items fs ((k, PTuple xs) # rest) =
     bnd (idx xs 0) (\<lambda>x0.
       if \<not> fs_exists fs x0 then Inr False
       else bnd (idx xs 1) (\<lambda>x1.
         if \<not> fs_exists fs x1 then Inr False else check_items fs rest))"
| "check_items fs ((k, v) # rest) = check_items fs rest"

definition decodable :: "fs \<Rightarrow> entry \<Rightarrow> bool" where
  \<comment> \<open>\<open>try: pfmread.readPFM(entry["disparity"][0])\<close>; any exception counts as failure\<close>
  "decodable fs e =
     (case bnd (get_list e ''disparity'') (\<lambda>d. idx d 0) of
        Inl _ \<Rightarrow> False
      | Inr p \<Rightarrow> fs_pfm_ok fs p)"

text \<open>
  The loop body of \<open>flow3d_driving_json\<close> after its two guards, block by block. Each
  block takes and returns \<open>self.entries\<close> and the random source.
\<close>

definition derive_nir :: "entry \<Rightarrow> error + string list \<times> entry" where
  \<comment> \<open>\<open>if "nir" in entry: nir = entry["nir"]\<close>, \<open>else: ...; entry["nir"] = nir\<close>\<close>
  "derive_nir entry =
     (if has_key entry ''nir''
      then bnd (get_list entry ''nir'') (\<lambda>nir. Inr (nir, entry))
      else bnd (get_list entry ''rgb'') (\<lambda>rgb.
           bnd (idx rgb 0) (\<lambda>rgb0. bnd (idx rgb 1) (\<lambda>rgb1.
             let nir = [replace ''frames_cleanpass'' ''nir_rendered'' rgb0,
                        replace ''frames_cleanpass'' ''nir_rendered'' rgb1]
             in Inr (nir, set_key entry ''nir'' (PTuple nir))))))"

definition base_block ::
  "StereoDatasetArgs \<Rightarrow> entry \<Rightarrow> string list \<Rightarrow> EntityFlying3d list \<times> rng
   \<Rightarrow> error + EntityFlying3d list \<times> rng" where
  \<comment> \<open>\<open>if not self.args.synth_no_rgb: self.entries.append(EntityFlying3d(...))\<close>\<close>
  "base_block a entry nir_ambient acc =
     (case acc of (es, g) \<Rightarrow>
      if \<not> args_synth_no_rgb a
      then bnd (get_list entry ''rgb'') (\<lambda>rgb. bnd (get_list entry ''disparity'') (\<lambda>disp.
             case EntityFlying3d_init (rgb @ nir_ambient) disp None None
                    (args_shift_filter a) False Rgb (args_disparity_right a) (gt_of a rgb) g
             of (d, g') \<Rightarrow> Inr (es @ [d], g')))
      else Inr (es, g))"

definition rendered_block ::
  "StereoDatasetArgs \<Rightarrow> fs \<Rightarrow> entry \<Rightarrow> string list \<Rightarrow> EntityFlying3d list \<times> rng
   \<Rightarrow> error + EntityFlying3d list \<times> rng" where
  \<comment> \<open>\<open>if self.args.rgb_rendered: ...\<close>: the two probes, then the loops over the variants\<close>
  "rendered_block a fs entry nir acc =
     (if args_rgb_rendered a
      then bnd (get_list entry ''rgb'') (\<lambda>rgb. bnd (idx rgb 0) (\<lambda>rgb0.
             let ir_gb = probe_render fs rgb0 ''frame_shaded'' (map (\<lambda>ir. 9 - ir) [0..<10]);
                 ir_nir = (if args_use_rendered_nir a
                           then probe_render fs rgb0 ''frame_shaded_nir''
                                  (map (\<lambda>ir. 9 - ir) [0..<10])
                           else - 1)
             in rendered_loop a rgb rgb0 nir (get_list entry ''disparity'') ir_nir
                  [0..<nat ir_gb] acc))
      else Inr acc)"

definition noised_block ::
  "StereoDatasetArgs \<Rightarrow> entry \<Rightarrow> string list \<Rightarrow> EntityFlying3d list \<times> rng
   \<Rightarrow> error + EntityFlying3d list \<times> rng" where
  \<comment> \<open>\<open>if self.args.noised_input: for _ in range(5): for t in ["rgb", "nir"]: ...\<close>\<close>
  "noised_block a entry nir_ambient acc =
     (if args_noised_input a
      then bnd (get_list entry ''rgb'') (\<lambda>rgb. bnd (get_list entry ''disparity'') (\<lambda>disp.
             Inr (noised_rounds a rgb nir_ambient disp 5 acc)))
      else Inr acc)"

definition validate_block :: "fs \<Rightarrow> bool \<Rightarrow> entry \<Rightarrow> lstate \<Rightarrow> error + lstate" where
  \<comment> \<open>\<open>if validate: ...; if validated: validate_entries.append(entry)\<close>\<close>
  "validate_block fs validate entry st =
     (if validate
      then bnd (check_items fs entry) (\<lambda>validated.
             Inr (st\<lparr>validate_entries :=
                       (if validated \<and> decodable fs entry then validate_entries st @ [entry]
                        else validate_entries st)\<rparr>))
      else Inr st)"

definition process_entry ::
  "StereoDatasetArgs \<Rightarrow> fs \<Rightarrow> bool \<Rightarrow> entry \<Rightarrow> lstate \<Rightarrow> error + lstate" where
  "process_entry a fs validate entry0 st =
     bnd (derive_nir entry0) (\<lambda>(nir, entry).
       let nir_ambient = map (replace ''nir_rendered'' ''nir_ambient'') nir in
       bnd (base_block a entry nir_ambient (entries st, rand st)) (\<lambda>acc1.
       bnd (rendered_block a fs entry nir acc1) (\<lambda>acc2.
       bnd (noised_block a entry nir_ambient acc2) (\<lambda>(es, g).
       validate_block fs validate entry (st\<lparr>entries := es, rand := g\<rparr>)))))"

fun expand_loop ::
  "StereoDatasetArgs \<Rightarrow> fs \<Rightarrow> bool \<Rightarrow> nat \<Rightarrow> entry list \<Rightarrow> lstate \<Rightarrow> error + lstate" where
  \<comment> \<open>\<open>for idx, entry in enumerate(entries)\<close> with its \<open>continue\<close> and \<open>break\<close>\<close>
  "expand_loop a fs validate i [] st = Inr st"
| "expand_loop a fs validate i (entry # rest) st =
     (if args_synth_no_filter a \<and> has_key entry ''frame_burnt_filtered''
      then expand_loop a fs validate (Suc i) rest st
      else if args_fast_test a \<and> length (entries st) > 100000
              \<or> (length (entries st) > 20000 \<and> i > 1500)
      then Inr st
      else bnd (process_entry a fs validate entry st)
             (\<lambda>st'. expand_loop a fs validate (Suc i) rest st'))"

definition init_state :: "rng \<Rightarrow> lstate" where
  \<comment> \<open>\<open>self.entries = []\<close>, \<open>validate_entries = []\<close>, \<open>error_cnt = 0\<close>\<close>
  "init_state g = \<lparr>entries = [], validate_entries = [], error_cnt = 0, rand = g\<rparr>"

record loaded =
  ld_entries :: "EntityFlying3d list"
  ld_fs :: fs
  ld_stdout :: "(string \<times> int) list"
  ld_rand :: rng

definition flow3d_driving_json ::
  "StereoDatasetArgs \<Rightarrow> fs \<Rightarrow> string \<Rightarrow> bool \<Rightarrow> rng \<Rightarrow> error + loaded" where
  "flow3d_driving_json a fs filename validate g =
     bnd (fs_json fs filename) (\<lambda>manifest.
     bnd (expand_loop a fs validate 0 manifest (init_state g)) (\<lambda>st.
       if validate
       then Inr \<lparr>ld_entries = entries st,
                 ld_fs = fs\<lparr>fs_json := (fs_json fs)
                            (filename := Inr (map json_dump_entry (validate_entries st)))\<rparr>,
                 ld_stdout = [(''Error Cnt '', error_cnt st)],
                 ld_rand = rand st\<rparr>
       else Inr \<lparr>ld_entries = entries st, ld_fs = fs, ld_stdout = [], ld_rand = rand st\<rparr>))"

definition noise_level :: "nat \<Rightarrow> int" where
  \<comment> \<open>\<open>int((random.random() * 100) % 20)\<close> as a function of the raw draw\<close>
  "noise_level r = fl_int (fl_mod (fl_mul (r mod 2 ^ 53) 100) 20)"

definition gamma_level :: "nat \<Rightarrow> real" where
  \<comment> \<open>\<open>random.random() * 2\<close> as a function of the raw draw\<close>
  "gamma_level r = fl_value (fl_mul (r mod 2 ^ 53) 2)"

definition noised_ok :: "EntityFlying3d \<Rightarrow> bool" where
  \<comment> \<open>a guided-noise level in \<open>[0, 20)\<close>, a gamma factor in \<open>[0, 2)\<close>, the default target\<close>
  "noised_ok d =
     ((case guided_noise d of None \<Rightarrow> False | Some n \<Rightarrow> 0 \<le> n \<and> n < 20)
      \<and> (case gamma_noise d of None \<Rightarrow> False | Some r \<Rightarrow> 0 \<le> r \<and> r < 2)
      \<and> noise_target d = Rgb)"

definition noised_dups ::
  "StereoDatasetArgs \<Rightarrow> string list \<Rightarrow> string list \<Rightarrow> string list \<Rightarrow> rng \<Rightarrow> EntityFlying3d list" where
  \<comment> \<open>ten noised duplicates, the \<open>j\<close>-th built from the three draws at \<open>pos g + 3 * j\<close>\<close>
  "noised_dups a rgb nir_ambient disp g =
     map (\<lambda>j. fst (noised_one a rgb nir_ambient disp (g\<lparr>pos := pos g + 3 * j\<rparr>))) [0..<10]"

definition draws_of :: "EntityFlying3d \<Rightarrow> nat" where
  \<comment> \<open>the draws the loader takes to build a descriptor: one for its shift distance and
     one for each noise level it is given\<close>
  "draws_of d = 1 + (if guided_noise d = None then 0 else 1)
                  + (if gamma_noise d = None then 0 else 1)"

definition draws :: "EntityFlying3d list \<Rightarrow> nat" where
  "draws ds = sum_list (map draws_of ds)"

definition noised_dup ::
  "StereoDatasetArgs \<Rightarrow> string list \<Rightarrow> string list \<Rightarrow> string list \<Rightarrow> (nat \<Rightarrow> nat) \<Rightarrow> nat
   \<Rightarrow> EntityFlying3d" where
  \<comment> \<open>the noised duplicate built from the three cells of the tape \<open>tp\<close> that start at \<open>p\<close>\<close>
  "noised_dup a rgb nir_ambient disp tp p =
     \<lparr>images = rgb @ nir_ambient, disparity = disp,
      guided_noise = Some (noise_level (tp p)),
      gamma_noise = Some (gamma_level (tp (p + 1))),
      shift_filter = args_shift_filter a, vertical_scale = args_vertical_scale a,
      noise_target = Rgb,
      shift_distance = 8 + int (tp (p + 2) mod 9),
      disparity_right = args_disparity_right a, rgb_gt = gt_of a rgb\<rparr>"

definition with_nir :: "entry \<Rightarrow> entry" where
  \<comment> \<open>a record as the loop leaves it: with its \<open>nir\<close> pair\<close>
  "with_nir entry = (case derive_nir entry of Inr (nir, entry') \<Rightarrow> entry' | Inl _ \<Rightarrow> entry)"

definition record_valid :: "fs \<Rightarrow> entry \<Rightarrow> bool" where
  \<comment> \<open>what validation keeps: the path check passes and the left disparity decodes\<close>
  "record_valid fs entry = (check_items fs entry = Inr True \<and> decodable fs entry)"

text \<open>The expansion with no cap on the accumulated samples: every record not filtered out is processed.\<close>

fun expand_all :: "StereoDatasetArgs \<Rightarrow> fs \<Rightarrow> bool \<Rightarrow> entry list \<Rightarrow> lstate \<Rightarrow> error + lstate" where
  "expand_all a fs validate [] st = Inr st"
| "expand_all a fs validate (entry # rest) st =
     (if args_synth_no_filter a \<and> has_key entry ''frame_burnt_filtered''
      then expand_all a fs validate rest st
      else bnd (process_entry a fs validate entry st) (expand_all a fs validate rest))"

text \<open>
  The two guards of the loop, and where the loop stops: at the first record, not
  filtered out, at which the cap is reached after the records before it have been
  expanded; at the end of the manifest when there is no such record.
\<close>

definition skipped :: "StereoDatasetArgs \<Rightarrow> entry \<Rightarrow> bool" where
  \<comment> \<open>the guard of \<open>continue\<close>\<close>
  "skipped a entry = (args_synth_no_filter a \<and> has_key entry ''frame_burnt_filtered'')"

definition cap_reached :: "StereoDatasetArgs \<Rightarrow> nat \<Rightarrow> nat \<Rightarrow> bool" where
  \<comment> \<open>the guard of \<open>break\<close>, with \<open>n\<close> descriptors accumulated at the record of index \<open>i\<close>\<close>
  "cap_reached a n i = (args_fast_test a \<and> n > 100000 \<or> (n > 20000 \<and> i > 1500))"

definition capped_at ::
  "StereoDatasetArgs \<Rightarrow> fs \<Rightarrow> bool \<Rightarrow> nat \<Rightarrow> entry list \<Rightarrow> lstate \<Rightarrow> nat \<Rightarrow> bool" where
  \<comment> \<open>the cap is reached at the \<open>m\<close>-th of the records \<open>es\<close>, which start at index \<open>i\<close>\<close>
  "capped_at a fs validate i es st m =
     (case expand_all a fs validate (take m es) st of
        Inl _ \<Rightarrow> False
      | Inr st' \<Rightarrow> \<not> skipped a (es ! m) \<and> cap_reached a (length (entries st')) (i + m))"

definition stop_index ::
  "StereoDatasetArgs \<Rightarrow> fs \<Rightarrow> bool \<Rightarrow> nat \<Rightarrow> entry list \<Rightarrow> lstate \<Rightarrow> nat" where
  "stop_index a fs validate i es st =
     (case find (capped_at a fs validate i es st) [0..<length es] of
        Some m \<Rightarrow> m
      | None \<Rightarrow> length es)"

definition survivors :: "StereoDatasetArgs \<Rightarrow> fs \<Rightarrow> entry list \<Rightarrow> entry list" where
  \<comment> \<open>of the records \<open>es\<close>, those not filtered out that validation keeps, with their NIR pair\<close>
  "survivors a fs es =
     filter (record_valid fs) (map with_nir (filter (\<lambda>e. \<not> skipped a e) es))"

subsection \<open>Example inputs\<close>

definition ex_args :: StereoDatasetArgs where
  \<comment> \<open>the defaults of \<open>StereoDatasetArgs\<close>\<close>
  "ex_args =
     \<lparr>args_folder = ''/bean/depth'', args_flow3d_driving_json = False,
      args_flying3d_json = False, args_fast_test = False, args_synth_no_filter = False,
      args_synth_no_rgb = False, args_validate_json = False, args_noised_input = False,
      args_shift_filter = False, args_vertical_scale = False, args_rgb_rendered = False,
      args_disparity_right = False, args_rgb_gt = False, args_use_rendered_nir = True\<rparr>"

definition ex_rng :: rng where
  "ex_rng = \<lparr>tape = (\<lambda>n. n), pos = 0\<rparr>"

definition ex_entry :: "string \<Rightarrow> entry" where
  \<comment> \<open>a record of scene \<open>s\<close>, as \<open>json.load\<close> returns it\<close>
  "ex_entry s =
     [(''rgb'', PList [''frames_cleanpass/'' @ s @ ''/left.png'',
                       ''frames_cleanpass/'' @ s @ ''/right.png'']),
      (''disparity'', PList [''disparity/'' @ s @ ''/left.pfm''])]"

definition ex_fs :: "entry list \<Rightarrow> string list \<Rightarrow> fs" where
  \<comment> \<open>a file system holding \<open>m.json\<close> with the given records; every path exists but \<open>missing\<close>\<close>
  "ex_fs manifest missing =
     \<lparr>fs_exists = (\<lambda>p. p \<notin> set missing),
      fs_json = (\<lambda>f. if f = ''m.json'' then Inr manifest else Inl FileNotFoundError),
      fs_pfm_ok = (\<lambda>p. p \<notin> set missing)\<rparr>"

definition ex_spread :: rng where
  \<comment> \<open>a source whose \<open>n\<close>-th call of \<open>random.random()\<close> returns \<open>n / 16\<close> modulo 1\<close>
  "ex_spread = \<lparr>tape = (\<lambda>n. n * 2 ^ 49), pos = 0\<rparr>"

definition ex_noised :: StereoDatasetArgs where
  \<comment> \<open>noised duplicates only: \<open>noised_input=True, synth_no_rgb=True\<close>\<close>
  "ex_noised = ex_args\<lparr>args_noised_input := True, args_synth_no_rgb := True\<rparr>"

definition ex_missing :: "string list" where
  \<comment> \<open>the NIR rendering of scene \<open>b\<close> is not on disk\<close>
  "ex_missing = [''nir_rendered/b/left.png'']"

definition ex_two :: "entry list" where
  "ex_two = [ex_entry ''a'', ex_entry ''b'']"

definition ex_kept :: "entry list" where
  \<comment> \<open>the record of scene \<open>a\<close> with its NIR pair, as \<open>json.dump\<close> writes it\<close>
  "ex_kept =
     [ex_entry ''a'' @ [(''nir'', PList [''nir_rendered/a/left.png'', ''nir_rendered/a/right.png''])]]"

definition ex_capped :: StereoDatasetArgs where
  \<comment> \<open>the defaults with \<open>noised_input=True\<close>; \<open>fast_test\<close> stays unset\<close>
  "ex_capped = ex_args\<lparr>args_noised_input := True\<rparr>"

definition ex_many :: "entry list" where
  \<comment> \<open>a manifest of 2000 records\<close>
  "ex_many = replicate 2000 (ex_entry ''a'')"

definition DRIVING_JSON :: string where
  "DRIVING_JSON = ''flyingthings3d.json''"

definition FLYING_JSON :: string where
  "FLYING_JSON = ''Flow3dFlyingThings3d.json''"

definition StereoDataset_init :: "StereoDatasetArgs \<Rightarrow> fs \<Rightarrow> rng \<Rightarrow> error + loaded" where
  \<comment> \<open>\<open>StereoDataset.__init__\<close> with \<open>copy_of_self=False\<close>; \<open>ld_entries\<close> is \<open>input_list\<close>\<close>
  "StereoDataset_init a fs g =
     bnd (if args_flow3d_driving_json a
          then flow3d_driving_json a fs DRIVING_JSON (args_validate_json a) g
          else Inr \<lparr>ld_entries = [], ld_fs = fs, ld_stdout = [], ld_rand = g\<rparr>) (\<lambda>r1.
     if args_flying3d_json a
     then bnd (flow3d_driving_json a (ld_fs r1) FLYING_JSON (args_validate_json a) (ld_rand r1))
            (\<lambda>r2. Inr (r2\<lparr>ld_entries := ld_entries r1 @ ld_entries r2,
                          ld_stdout := ld_stdout r1 @ ld_stdout r2\<rparr>))
     else Inr r1)"

section \<open>Access to a synthetic sample\<close>

text \<open>
  \<open>EntityFlying3d.get_item\<close> works on numpy arrays and torch tensors through calls of
  numpy, torch, PIL, \<open>pfmread\<close> and \<open>image_process\<close>. None of their code is part of
  the sources: arrays and tensors are values of a type \<open>'a\<close> the model does not look
  into, and each call is a field of the record \<open>lib\<close>. The routines of
  \<open>image_process\<close> may draw from the random source. The lists of Python, their
  indexing, the attributes of the descriptor and the control flow are modelled as
  they are written.
\<close>

type_synonym 'x act = "rng \<Rightarrow> error + 'x \<times> rng"

definition ret :: "'x \<Rightarrow> 'x act" where
  "ret x g = Inr (x, g)"

definition lift :: "error + 'x \<Rightarrow> 'x act" where
  \<comment> \<open>a step that draws nothing\<close>
  "lift m g = (case m of Inl e \<Rightarrow> Inl e | Inr x \<Rightarrow> Inr (x, g))"

definition bndr :: "'x act \<Rightarrow> ('x \<Rightarrow> 'y act) \<Rightarrow> 'y act" where
  \<comment> \<open>sequencing of steps that may raise and may draw\<close>
  "bndr m f g = (case m g of Inl e \<Rightarrow> Inl e | Inr (x, g') \<Rightarrow> f x g')"

fun map_act :: "('x \<Rightarrow> 'y act) \<Rightarrow> 'x list \<Rightarrow> 'y list act" where
  \<comment> \<open>\<open>[f(x) for x in xs]\<close>\<close>
  "map_act f [] g = Inr ([], g)"
| "map_act f (x # xs) g =
     (case f x g of
        Inl e \<Rightarrow> Inl e
      | Inr (y, g1) \<Rightarrow>
          (case map_act f xs g1 of
             Inl e \<Rightarrow> Inl e
           | Inr (ys, g2) \<Rightarrow> Inr (y # ys, g2)))"

definition set_idx :: "'x list \<Rightarrow> nat \<Rightarrow> 'x \<Rightarrow> error + 'x list" where
  \<comment> \<open>\<open>xs[i] = v\<close> for a literal \<open>i \<ge> 0\<close>\<close>
  "set_idx xs i v = (if i < length xs then Inr (xs[i := v]) else Inl IndexError)"

definition unpack2 :: "'x list \<Rightarrow> error + 'x \<times> 'x" where
  \<comment> \<open>\<open>a, b = xs\<close>\<close>
  "unpack2 xs = (case xs of [a, b] \<Rightarrow> Inr (a, b) | _ \<Rightarrow> Inl ValueError)"

record 'a lib =
  pfmread_read :: "string \<Rightarrow> error + 'a"
  Image_open :: "string \<Rightarrow> error + 'a"
  is_ndarray :: "'a \<Rightarrow> bool"
  shape_of :: "'a \<Rightarrow> nat list"
  floor_divide :: "'a \<Rightarrow> int \<Rightarrow> error + 'a"
  mean_last :: "'a \<Rightarrow> error + 'a"
  newaxis_last :: "'a \<Rightarrow> error + 'a"
  from_numpy :: "'a \<Rightarrow> error + 'a"
  unsqueeze0 :: "'a \<Rightarrow> error + 'a"
  permute201 :: "'a \<Rightarrow> error + 'a"
  to_float :: "'a \<Rightarrow> error + 'a"
  index0 :: "'a \<Rightarrow> error + 'a"
  rows :: "'a \<Rightarrow> error + 'a list"
  concat_dim :: "nat \<Rightarrow> 'a list \<Rightarrow> error + 'a"
  stack0 :: "'a list \<Rightarrow> error + 'a"
  channels :: "'a \<Rightarrow> nat \<Rightarrow> nat \<Rightarrow> error + 'a"
  gather_vu :: "'a \<Rightarrow> nat list \<Rightarrow> nat list \<Rightarrow> error + 'a"
  stack_points :: "nat list \<Rightarrow> nat list \<Rightarrow> 'a \<Rightarrow> error + 'a"
  img_pad_np :: "'a \<Rightarrow> bool \<Rightarrow> 'a act"
  guided_filter :: "'a \<Rightarrow> 'a \<Rightarrow> int \<Rightarrow> 'a act"
  apply_patch_gamma_correction_torch :: "'a \<Rightarrow> 'a act"
  inputs_disparity_shift :: "'a list \<Rightarrow> 'a list \<Rightarrow> int \<Rightarrow> ('a list \<times> 'a list) act"
  crop_and_resize_height :: "'a \<Rightarrow> 'a act"

definition read_img :: "'a lib \<Rightarrow> string \<Rightarrow> 'a act" where
  \<comment> \<open>\<open>__read_img\<close>; \<open>cut_resolution\<close> is the class attribute \<open>(540, 720)\<close>\<close>
  "read_img c filename =
     bndr (lift (if endswith filename ''.pfm'' then pfmread_read c filename
                 else Image_open c filename)) (\<lambda>img.
     bndr (lift (idx (shape_of c img) 0)) (\<lambda>h.
       if h \<noteq> 540 then img_pad_np c img (contains filename ''disp'')
       else bndr (lift (idx (shape_of c img) 1)) (\<lambda>w.
              if w \<noteq> 720 then img_pad_np c img (contains filename ''disp'')
              else ret img)))"

definition tensor_of :: "'a lib \<Rightarrow> 'a \<Rightarrow> error + 'a" where
  \<comment> \<open>\<open>__to_tensor\<close> from \<open>tensor = torch.from_numpy(img.copy())\<close> on\<close>
  "tensor_of c img =
     bnd (from_numpy c img) (\<lambda>tensor.
       if length (shape_of c tensor) = 2 then bnd (unsqueeze0 c tensor) (to_float c)
       else bnd (permute201 c tensor) (to_float c))"

definition to_tensor_arr :: "'a lib \<Rightarrow> 'a \<Rightarrow> 'a act" where
  \<comment> \<open>\<open>__to_tensor\<close> on an array; a value that is no \<open>ndarray\<close> goes to \<open>__read_img\<close>,
     where \<open>filename.endswith\<close> fails\<close>
  "to_tensor_arr c x = lift (if is_ndarray c x then tensor_of c x else Inl AttributeError)"

definition to_tensor_path :: "'a lib \<Rightarrow> string \<Rightarrow> 'a act" where
  \<comment> \<open>\<open>__to_tensor\<close> on a path\<close>
  "to_tensor_path c filename = bndr (read_img c filename) (\<lambda>img. lift (tensor_of c img))"

definition guided_stage :: "'a lib \<Rightarrow> EntityFlying3d \<Rightarrow> 'a list \<Rightarrow> 'a list act" where
  \<comment> \<open>\<open>if self.guided_noise is not None: ...\<close>; \<open>guided_filter\<close> is called with \<open>1e-6\<close> last\<close>
  "guided_stage c self imgs =
     (case guided_noise self of
        None \<Rightarrow> ret imgs
      | Some gn \<Rightarrow>
          if noise_target self = Rgb
          then bndr (lift (idx imgs 2)) (\<lambda>i2. bndr (lift (idx imgs 0)) (\<lambda>i0.
               bndr (guided_filter c i2 i0 (gn * 5 + 2)) (\<lambda>f0.
               bndr (lift (set_idx imgs 0 f0)) (\<lambda>imgs.
               bndr (lift (idx imgs 3)) (\<lambda>i3. bndr (lift (idx imgs 1)) (\<lambda>i1.
               bndr (guided_filter c i3 i1 (gn * 5 + 2)) (\<lambda>f1.
               bndr (lift (set_idx imgs 1 f1)) (\<lambda>imgs.
               bndr (\<lambda>g. Inr (py_randint 1 4 g)) (\<lambda>n.
                 if n = 1
                 then bndr (lift (idx imgs 0)) (\<lambda>i0.
                      bndr (lift (floor_divide c i0 50)) (\<lambda>q0.
                      bndr (lift (set_idx imgs 0 q0)) (\<lambda>imgs.
                      bndr (lift (idx imgs 1)) (\<lambda>i1.
                      bndr (lift (floor_divide c i1 50)) (\<lambda>q1.
                      lift (set_idx imgs 1 q1))))))
                 else ret imgs)))))))))
          else bndr (lift (idx imgs 0)) (\<lambda>i0. bndr (lift (mean_last c i0)) (\<lambda>m0.
               bndr (lift (idx imgs 2)) (\<lambda>i2. bndr (lift (newaxis_last c i2)) (\<lambda>n2.
               bndr (guided_filter c m0 n2 (gn + 3)) (\<lambda>f2.
               bndr (lift (set_idx imgs 2 f2)) (\<lambda>imgs.
               bndr (lift (idx imgs 1)) (\<lambda>i1. bndr (lift (mean_last c i1)) (\<lambda>m1.
               bndr (lift (idx imgs 3)) (\<lambda>i3. bndr (lift (newaxis_last c i3)) (\<lambda>n3.
               bndr (guided_filter c m1 n3 (gn + 3)) (\<lambda>f3.
               lift (set_idx imgs 3 f3)))))))))))))"

definition gamma_at :: "'a lib \<Rightarrow> 'a list \<Rightarrow> nat \<Rightarrow> 'a list act" where
  \<comment> \<open>\<open>images[i] = apply_patch_gamma_correction_torch(images[i].unsqueeze(0))[0]\<close>\<close>
  "gamma_at c imgs i =
     bndr (lift (idx imgs i)) (\<lambda>x. bndr (lift (unsqueeze0 c x)) (\<lambda>x1.
     bndr (apply_patch_gamma_correction_torch c x1) (\<lambda>y. bndr (lift (index0 c y)) (\<lambda>y0.
     lift (set_idx imgs i y0)))))"

definition gamma_stage :: "'a lib \<Rightarrow> EntityFlying3d \<Rightarrow> 'a list \<Rightarrow> 'a list act" where
  \<comment> \<open>\<open>if self.gamma_noise is not None: ...\<close>\<close>
  "gamma_stage c self imgs =
     (case gamma_noise self of
        None \<Rightarrow> ret imgs
      | Some gam \<Rightarrow>
          if noise_target self = Rgb
          then bndr (gamma_at c imgs 0) (\<lambda>imgs. gamma_at c imgs 1)
          else bndr (gamma_at c imgs 2) (\<lambda>imgs. gamma_at c imgs 3))"

definition load_stage ::
  "'a lib \<Rightarrow> EntityFlying3d \<Rightarrow> ('a list \<times> (nat list \<times> nat list) \<times> 'a) act" where
  \<comment> \<open>from \<open>images = [self.__read_img(img) for img in self.images]\<close> to
     \<open>disparity = self.__to_tensor(self.disparity[0])\<close>\<close>
  "load_stage c self =
     bndr (map_act (read_img c) (images self)) (\<lambda>imgs.
     bndr (guided_stage c self imgs) (\<lambda>imgs.
     bndr (map_act (to_tensor_arr c) imgs) (\<lambda>imgs.
     bndr (gamma_stage c self imgs) (\<lambda>imgs.
     bndr (\<lambda>g. Inr (sample_uv 540 720 g)) (\<lambda>uv.
     bndr (lift (idx (disparity self) 0)) (\<lambda>p0.
     bndr (to_tensor_path c p0) (\<lambda>disp.
     ret (imgs, uv, disp))))))))"

definition gt_stage :: "'a lib \<Rightarrow> EntityFlying3d \<Rightarrow> 'a list \<Rightarrow> 'a list act" where
  \<comment> \<open>\<open>if self.rgb_gt is not None: image_gt = [...]; images += image_gt\<close>\<close>
  "gt_stage c self imgs =
     (case rgb_gt self of
        None \<Rightarrow> ret imgs
      | Some paths \<Rightarrow>
          bndr (map_act (\<lambda>x. bndr (read_img c x) (to_tensor_arr c)) paths) (\<lambda>image_gt.
          ret (imgs @ image_gt)))"

definition shift_stage ::
  "'a lib \<Rightarrow> EntityFlying3d \<Rightarrow> 'a list \<times> 'a \<times> 'a \<Rightarrow> ('a list \<times> 'a \<times> 'a) act" where
  \<comment> \<open>\<open>if self.shift_filter: ...\<close>\<close>
  "shift_stage c self s =
     (case s of (imgs, disp, disp_r) \<Rightarrow>
      if shift_filter self
      then bndr (map_act (\<lambda>x. lift (unsqueeze0 c x)) imgs) (\<lambda>imgs.
           bndr (if rgb_gt self \<noteq> None
                 then bndr (lift (idx imgs 0)) (\<lambda>i0. bndr (lift (idx imgs 4)) (\<lambda>i4.
                      bndr (lift (concat_dim c 1 [i0, i4])) (\<lambda>c0.
                      bndr (lift (set_idx imgs 0 c0)) (\<lambda>imgs.
                      bndr (lift (idx imgs 1)) (\<lambda>i1. bndr (lift (idx imgs 5)) (\<lambda>i5.
                      bndr (lift (concat_dim c 1 [i1, i5])) (\<lambda>c1.
                      bndr (lift (set_idx imgs 1 c1)) (\<lambda>imgs.
                      ret (take 4 imgs)))))))))
                 else ret imgs) (\<lambda>imgs.
           bndr (lift (unsqueeze0 c disp)) (\<lambda>d0.
           bndr (lift (unsqueeze0 c disp_r)) (\<lambda>d1.
           bndr (inputs_disparity_shift c imgs [d0, d1] (shift_distance self)) (\<lambda>(imgs, ds).
           bndr (lift (unpack2 ds)) (\<lambda>(disp, disp_r).
           bndr (if rgb_gt self \<noteq> None
                 then bndr (lift (idx imgs 0)) (\<lambda>i0. bndr (lift (channels c i0 3 6)) (\<lambda>g0.
                      bndr (lift (idx (imgs @ [g0]) 1)) (\<lambda>i1.
                      bndr (lift (channels c i1 3 6)) (\<lambda>g1.
                      bndr (lift (idx (imgs @ [g0, g1]) 0)) (\<lambda>i0.
                      bndr (lift (channels c i0 0 3)) (\<lambda>h0.
                      bndr (lift (set_idx (imgs @ [g0, g1]) 0 h0)) (\<lambda>imgs.
                      bndr (lift (idx imgs 1)) (\<lambda>i1.
                      bndr (lift (channels c i1 0 3)) (\<lambda>h1.
                      lift (set_idx imgs 1 h1))))))))))
                 else ret imgs) (\<lambda>imgs.
           bndr (map_act (\<lambda>x. lift (index0 c x)) imgs) (\<lambda>imgs.
           bndr (lift (index0 c disp)) (\<lambda>disp.
           bndr (lift (index0 c disp_r)) (\<lambda>disp_r.
           ret (imgs, disp, disp_r)))))))))))
      else ret (imgs, disp, disp_r))"

definition crop_pair :: "'a lib \<Rightarrow> 'a list \<Rightarrow> nat \<Rightarrow> nat \<Rightarrow> 'a list \<Rightarrow> 'a list act" where
  \<comment> \<open>\<open>images[i], images[j] = crop_and_resize_height(torch.stack(part, dim=0))\<close>\<close>
  "crop_pair c imgs i j part =
     bndr (lift (stack0 c part)) (\<lambda>s. bndr (crop_and_resize_height c s) (\<lambda>r.
     bndr (lift (rows c r)) (\<lambda>rs. bndr (lift (unpack2 rs)) (\<lambda>(a, b).
     bndr (lift (set_idx imgs i a)) (\<lambda>imgs. lift (set_idx imgs j b))))))"

definition crop_one :: "'a lib \<Rightarrow> 'a \<Rightarrow> 'a act" where
  \<comment> \<open>\<open>crop_and_resize_height(x.unsqueeze(0))[0]\<close>\<close>
  "crop_one c x =
     bndr (lift (unsqueeze0 c x)) (\<lambda>x1. bndr (crop_and_resize_height c x1) (\<lambda>r.
     lift (index0 c r)))"

definition vertical_stage ::
  "'a lib \<Rightarrow> EntityFlying3d \<Rightarrow> 'a list \<times> 'a \<times> 'a \<Rightarrow> ('a list \<times> 'a \<times> 'a) act" where
  \<comment> \<open>\<open>if self.vertical_scale: ...\<close>\<close>
  "vertical_stage c self s =
     (case s of (imgs, disp, disp_r) \<Rightarrow>
      if vertical_scale self
      then bndr (crop_pair c imgs 0 1 (take 2 imgs)) (\<lambda>imgs.
           bndr (crop_pair c imgs 2 3 (take 2 (drop 2 imgs))) (\<lambda>imgs.
           bndr (if rgb_gt self \<noteq> None
                 then bndr (lift (stack0 c (take 2 (drop 4 imgs)))) (\<lambda>s.
                      bndr (crop_and_resize_height c s) (\<lambda>r. bndr (lift (rows c r)) (\<lambda>rs.
                      ret (take 4 imgs @ rs @ drop 6 imgs))))
                 else ret imgs) (\<lambda>imgs.
           bndr (crop_one c disp) (\<lambda>disp.
           bndr (if disparity_right self then crop_one c disp_r else ret disp_r) (\<lambda>disp_r.
           ret (imgs, disp, disp_r))))))
      else ret (imgs, disp, disp_r))"

definition get_item :: "'a lib \<Rightarrow> EntityFlying3d \<Rightarrow> ('a list \<times> EntityFlying3d) act" where
  \<comment> \<open>\<open>EntityFlying3d.get_item\<close>; the descriptor is returned as the call leaves it\<close>
  "get_item c self =
     bndr (load_stage c self) (\<lambda>(imgs, (u, v), disp).
     bndr (lift (idx (disparity self) 1)) (\<lambda>p1.
     bndr (to_tensor_path c p1) (\<lambda>disp_r.
     bndr (gt_stage c self imgs) (\<lambda>imgs.
     bndr (shift_stage c self (imgs, disp, disp_r)) (\<lambda>s.
     bndr (vertical_stage c self s) (\<lambda>(imgs, disp, disp_r).
     bndr (lift (gather_vu c disp v u)) (\<lambda>disparity_sampled.
     bndr (lift (index0 c disparity_sampled)) (\<lambda>s0.
     bndr (lift (stack_points c u v s0)) (\<lambda>disparity_points.
     bndr (if disparity_right self then lift (concat_dim c 0 [disp, disp_r]) else ret disp)
       (\<lambda>disp.
     ret (imgs @ [disparity_points, disp], self)))))))))))"

fun get_items :: "'a lib \<Rightarrow> EntityFlying3d \<Rightarrow> nat \<Rightarrow> ('a list list \<times> EntityFlying3d) act" where
  \<comment> \<open>\<open>n\<close> accesses to one descriptor, one after the other\<close>
  "get_items c self 0 g = Inr (([], self), g)"
| "get_items c self (Suc n) g =
     (case get_item c self g of
        Inl e \<Rightarrow> Inl e
      | Inr ((batch, self'), g1) \<Rightarrow>
          (case get_items c self' n g1 of
             Inl e \<Rightarrow> Inl e
           | Inr ((batches, self''), g2) \<Rightarrow> Inr ((batch # batches, self''), g2)))"

subsection \<open>Example inputs of an access\<close>

definition ex_lib :: "unit lib" where
  \<comment> \<open>every file can be read and every call succeeds\<close>
  "ex_lib =
     \<lparr>pfmread_read = (\<lambda>f. Inr ()), Image_open = (\<lambda>f. Inr ()), is_ndarray = (\<lambda>x. True),
      shape_of = (\<lambda>x. [540, 720]), floor_divide = (\<lambda>x k. Inr ()), mean_last = (\<lambda>x. Inr ()),
      newaxis_last = (\<lambda>x. Inr ()), from_numpy = (\<lambda>x. Inr ()), unsqueeze0 = (\<lambda>x. Inr ()),
      permute201 = (\<lambda>x. Inr ()), to_float = (\<lambda>x. Inr ()), index0 = (\<lambda>x. Inr ()),
      rows = (\<lambda>x. Inr [(), ()]), concat_dim = (\<lambda>n xs. Inr ()), stack0 = (\<lambda>xs. Inr ()),
      channels = (\<lambda>x a b. Inr ()), gather_vu = (\<lambda>x v u. Inr ()),
      stack_points = (\<lambda>u v x. Inr ()), img_pad_np = (\<lambda>x b. ret ()),
      guided_filter = (\<lambda>x y r. ret ()), apply_patch_gamma_correction_torch = (\<lambda>x. ret ()),
      inputs_disparity_shift = (\<lambda>xs ds k. ret (xs, ds)),
      crop_and_resize_height = (\<lambda>x. ret ())\<rparr>"

definition ex_single :: EntityFlying3d where
  \<comment> \<open>a descriptor of one colour pair, its NIR pair and a single disparity path\<close>
  "ex_single =
     \<lparr>images = [''L.png'', ''R.png'', ''L_nir.png'', ''R_nir.png''], disparity = [''D.pfm''],
      guided_noise = None, gamma_noise = None, shift_filter = False, vertical_scale = False,
      noise_target = Rgb, shift_distance = 8, disparity_right = False, rgb_gt = None\<rparr>"

definition ex_shifted :: EntityFlying3d where
  \<comment> \<open>a descriptor with both disparity paths and the horizontal shift switched on\<close>
  "ex_shifted =
     \<lparr>images = [''L.png'', ''R.png'', ''L_nir.png'', ''R_nir.png''],
      disparity = [''D0.pfm'', ''D1.pfm''],
      guided_noise = None, gamma_noise = None, shift_filter = True, vertical_scale = False,
      noise_target = Rgb, shift_distance = 8, disparity_right = False, rgb_gt = None\<rparr>"

section \<open>Middlebury dataset: proofs\<close>

lemma mb_range_eq: "mb_range n rootdir file acc = acc @ replicate n (mb_entity rootdir file)"
  by (induction n arbitrary: acc)
     (simp_all add: mb_entity_def EntityMiddlebury_init_def replicate_append_same)

lemma mb_files_eq:
  "mb_files rootdir files acc =
   acc @ concat (map (\<lambda>file. replicate 100 (mb_entity rootdir file))
                   (filter (\<lambda>file. endswith file ''disp0.pfm'') files))"
  by (induction files arbitrary: acc) (simp_all add: mb_range_eq)

lemma mb_walk_eq:
  "mb_walk w acc = acc @ concat (map (\<lambda>(rootdir, file). replicate 100 (mb_entity rootdir file)) (mb_matches w))"
proof (induction w arbitrary: acc)
  case Nil
  then show ?case by (simp add: mb_matches_def)
next
  case (Cons t w)
  obtain rootdir dirs files where t: "t = (rootdir, dirs, files)"
    by (cases t) auto
  have "mb_matches (t # w) =
        map (\<lambda>file. (rootdir, file)) (filter (\<lambda>file. endswith file ''disp0.pfm'') files) @ mb_matches w"
    by (simp add: mb_matches_def t)
  then show ?case
    by (simp add: t Cons.IH mb_files_eq map_concat comp_def)
qed

text \<open>
  C10. For every file named \<open>...disp0.pfm\<close> under the folder, the constructor appends
  exactly 100 descriptors, all equal: the disparity path is the file itself and the colour
  paths are its siblings, with \<open>disp0\<close> replaced by \<open>im0\<close> / \<open>im1\<close> and \<open>pfm\<close> by \<open>png\<close>.
  Nothing else is appended.
\<close>

theorem middlebury_init_100_per_disparity:
  "MiddleburyDataset_init w =
     concat (map (\<lambda>(rootdir, file). replicate 100 (mb_entity rootdir file)) (mb_matches w))
   \<and> length (MiddleburyDataset_init w) = 100 * length (mb_matches w)"
proof -
  have eq: "MiddleburyDataset_init w =
     concat (map (\<lambda>(rootdir, file). replicate 100 (mb_entity rootdir file)) (mb_matches w))"
    by (simp add: MiddleburyDataset_init_def mb_walk_eq)
  have "length (concat (map (\<lambda>(rootdir, file). replicate 100 (mb_entity rootdir file)) ms)) = 100 * length ms"
    for ms :: "(string \<times> string) list"
    by (induction ms) auto
  with eq show ?thesis by simp
qed

section \<open>Sparse point sampler: proofs\<close>

lemma mset_randperm_from: "mset (fst (randperm_from pool g)) = mset pool"
proof (induction pool g rule: randperm_from.induct)
  case (1 pool g)
  show ?case
  proof (cases "pool = []")
    case True
    then show ?thesis by (simp add: randperm_from.simps)
  next
    case False
    obtain r g1 where d: "draw g = (r, g1)"
      by (cases "draw g") auto
    let ?i = "r mod length pool"
    let ?pool' = "take ?i pool @ drop (Suc ?i) pool"
    have i: "?i < length pool"
      using False by simp
    have IH: "mset (fst (randperm_from ?pool' g1)) = mset ?pool'"
      using "1.IH" [OF False d [symmetric]] .
    have "mset pool = mset (take ?i pool @ pool ! ?i # drop (Suc ?i) pool)"
      using id_take_nth_drop [OF i] by simp
    then have split: "mset pool = add_mset (pool ! ?i) (mset ?pool')"
      by simp
    have "fst (randperm_from pool g) = pool ! ?i # fst (randperm_from ?pool' g1)"
      using False d by (subst randperm_from.simps) (simp split: prod.splits)
    then show ?thesis
      using IH split by simp
  qed
qed

lemma randperm_perm: "mset (fst (randperm n g)) = mset [0..<n]"
  by (simp add: randperm_def mset_randperm_from)

lemma randperm_distinct: "distinct (fst (randperm n g))"
proof -
  have "distinct [0..<n]" by simp
  then show ?thesis
    using randperm_perm [of n g] by (metis mset_eq_imp_distinct_iff)
qed

lemma randperm_set: "set (fst (randperm n g)) = {0..<n}"
proof -
  have "set (fst (randperm n g)) = set [0..<n]"
    using randperm_perm [of n g] by (rule mset_eq_setD)
  then show ?thesis by simp
qed

lemma randperm_length: "length (fst (randperm n g)) = n"
  using randperm_perm [of n g] by (metis mset_eq_length length_upt diff_zero)

lemma inj_on_mod_div: "inj_on (\<lambda>i::nat. (i mod W, i div W)) A"
proof (rule inj_onI)
  fix x y :: nat
  assume "(x mod W, x div W) = (y mod W, y div W)"
  then have "x mod W = y mod W" "x div W = y div W" by simp_all
  then show "x = y"
    by (metis div_mult_mod_eq)
qed

text \<open>
  C8. In both samplers the sampled \<open>(u, v)\<close> pairs are pairwise distinct and inside the
  frame, \<open>0 \<le> u < W\<close> and \<open>0 \<le> v < H\<close>; there are 5000 of them, fewer only when the
  frame has fewer pixels. The synthetic sampler is \<open>sample_uv 540 720\<close>, the ETH3D one
  \<open>sample_uv (min H 540) (min W 720)\<close>.
\<close>

theorem sample_uv_distinct_in_bounds:
  "(case sample_uv H W g of ((u, v), g') \<Rightarrow>
      length u = min 5000 (H * W) \<and> length v = length u
      \<and> distinct (zip u v)
      \<and> list_all (\<lambda>(x, y). x < W \<and> y < H) (zip u v))"
proof -
  obtain perm g' where rp: "randperm (H * W) g = (perm, g')"
    by (cases "randperm (H * W) g") auto
  define indices where "indices = take 5000 perm"
  have perm: "distinct perm" "set perm = {0..<H * W}" "length perm = H * W"
    using randperm_distinct [of "H * W" g] randperm_set [of "H * W" g]
      randperm_length [of "H * W" g] rp by simp_all
  have dist: "distinct indices"
    using perm(1) by (simp add: indices_def)
  have bound: "\<forall>i \<in> set indices. i < H * W"
    using perm(2) set_take_subset [of 5000 perm] by (auto simp: indices_def)
  have len: "length indices = min 5000 (H * W)"
    using perm(3) by (simp add: indices_def min.commute)
  have zip_eq: "zip (map (\<lambda>i. i mod W) indices) (map (\<lambda>i. i div W) indices)
                = map (\<lambda>i. (i mod W, i div W)) indices"
    by (induction indices) auto
  have d2: "distinct (map (\<lambda>i. (i mod W, i div W)) indices)"
    using dist inj_on_mod_div by (simp add: distinct_map)
  have inb: "list_all (\<lambda>(x, y). x < W \<and> y < H) (map (\<lambda>i. (i mod W, i div W)) indices)"
  proof -
    have "i mod W < W \<and> i div W < H" if "i \<in> set indices" for i
    proof -
      from that bound have lt: "i < H * W" by blast
      then have "0 < W" by (cases W) auto
      moreover have "i div W < H"
        using lt by (simp add: less_mult_imp_div_less)
      ultimately show ?thesis by simp
    qed
    then show ?thesis
      by (simp add: list_all_iff)
  qed
  show ?thesis
    using rp len d2 inb by (simp add: sample_uv_def Let_def zip_eq flip: indices_def)
qed

section \<open>Manifest loader: proofs\<close>

lemma bnd_Inl [simp]: "bnd (Inl e) f = Inl e"
  by (simp add: bnd_def)

lemma bnd_Inr [simp]: "bnd (Inr x) f = f x"
  by (simp add: bnd_def)

lemma bnd_eq_Inr: "bnd m f = Inr y \<longleftrightarrow> (\<exists>x. m = Inr x \<and> f x = Inr y)"
  by (cases m) simp_all

lemma draw_simps: "fst (draw g) = tape g (pos g)" "snd (draw g) = g\<lparr>pos := Suc (pos g)\<rparr>"
  by (simp_all add: draw_def)

lemma init_fields:
  "EntityFlying3d_init imgs disp gn gam sf vs nt dr gt g = (d, g') \<Longrightarrow>
     images d = imgs \<and> disparity d = disp \<and> guided_noise d = gn \<and> gamma_noise d = gam
     \<and> shift_filter d = sf \<and> vertical_scale d = vs \<and> noise_target d = nt
     \<and> disparity_right d = dr \<and> rgb_gt d = gt
     \<and> shift_distance d = 8 + int (tape g (pos g) mod 9)
     \<and> g' = g\<lparr>pos := Suc (pos g)\<rparr>"
  by (auto simp: EntityFlying3d_init_def py_randint_def draw_def)

lemma bitlen_le: "m < 2 ^ n \<Longrightarrow> bitlen m \<le> n"
proof (induction n arbitrary: m)
  case 0
  then show ?case by (simp add: bitlen.simps)
next
  case (Suc n)
  show ?case
  proof (cases "m = 0")
    case True
    then show ?thesis by (simp add: bitlen.simps)
  next
    case False
    from Suc.prems have "m div 2 < 2 ^ n"
      by simp
    from Suc.IH [OF this] False show ?thesis
      by (subst bitlen.simps) simp
  qed
qed

lemma fl_round_exact: "m mod 2 ^ (bitlen m - 53) = 0 \<Longrightarrow> fl_round m = m"
  by (simp add: fl_round_def round_half_even_def Let_def)
     (metis add.right_neutral div_mult_mod_eq)

lemma fl_mul_2: "k < 2 ^ 53 \<Longrightarrow> fl_mul k 2 = 2 * k"
proof -
  assume "k < 2 ^ 53"
  then have "k * 2 < 2 ^ 54"
    by simp
  from bitlen_le [OF this] have "bitlen (k * 2) - 53 = 0 \<or> bitlen (k * 2) - 53 = 1"
    by arith
  then have "(k * 2) mod 2 ^ (bitlen (k * 2) - 53) = 0"
    by auto
  from fl_round_exact [OF this] show ?thesis
    by (simp add: fl_mul_def)
qed

text \<open>
  The product \<open>random.random() * 100\<close> is rounded: at the draw \<open>5404319552844595\<close>
  (just below \<open>0.6\<close>) it is the double \<open>60.0\<close>, so the level is \<open>0\<close> and not \<open>19\<close>.
\<close>

lemma noise_level_rounds_product: "noise_level 5404319552844595 = 0"
  by (simp add: noise_level_def fl_int_def fl_mod_def fl_mul_def fl_round_def
      round_half_even_def bitlen.simps Let_def)

lemma noise_level_range: "0 \<le> noise_level r \<and> noise_level r < 20"
proof -
  have "fl_mod x 20 div 2 ^ 53 < 20" for x
    unfolding fl_mod_def by (rule less_mult_imp_div_less) simp
  then show ?thesis
    by (simp add: noise_level_def fl_int_def)
qed

lemma gamma_level_eq: "gamma_level r = real (r mod 2 ^ 53) / 2 ^ 53 * 2"
proof -
  have "r mod 2 ^ 53 < 2 ^ 53"
    by simp
  from fl_mul_2 [OF this] show ?thesis
    by (simp add: gamma_level_def fl_value_def)
qed

lemma gamma_level_range: "0 \<le> gamma_level r \<and> gamma_level r < 2"
proof -
  have "r mod 2 ^ 53 < 2 ^ 53"
    by simp
  then have "real (r mod 2 ^ 53) < 2 ^ 53"
    by (metis of_nat_less_iff of_nat_numeral of_nat_power)
  then show ?thesis
    by (simp add: gamma_level_eq field_simps)
qed

lemma noised_one_eq:
  "noised_one a rgb na disp g =
     (\<lparr>images = rgb @ na, disparity = disp,
       guided_noise = Some (noise_level (tape g (pos g))),
       gamma_noise = Some (gamma_level (tape g (Suc (pos g)))),
       shift_filter = args_shift_filter a, vertical_scale = args_vertical_scale a,
       noise_target = Rgb,
       shift_distance = 8 + int (tape g (Suc (Suc (pos g))) mod 9),
       disparity_right = args_disparity_right a, rgb_gt = gt_of a rgb\<rparr>,
      g\<lparr>pos := pos g + 3\<rparr>)"
  by (simp add: noised_one_def py_random_def draw_def EntityFlying3d_init_def py_randint_def
      noise_level_def gamma_level_def numeral_3_eq_3)

lemma noised_one_ok: "noised_ok (fst (noised_one a rgb na disp g))"
  using noise_level_range gamma_level_range by (simp add: noised_one_eq noised_ok_def)

lemma noised_targets_eq:
  "noised_targets a rgb na disp ts (es, g) =
     (es @ map (\<lambda>j. fst (noised_one a rgb na disp (g\<lparr>pos := pos g + 3 * j\<rparr>))) [0..<length ts],
      g\<lparr>pos := pos g + 3 * length ts\<rparr>)"
proof (induction ts arbitrary: es g)
  case Nil
  then show ?case by simp
next
  case (Cons t ts)
  have upt: "[0..<Suc (length ts)] = 0 # map Suc [0..<length ts]"
    by (metis map_Suc_upt upt_conv_Cons zero_less_Suc)
  show ?case
    by (simp only: noised_targets.simps noised_one_eq [of a rgb na disp g] prod.case Cons.IH
          length_Cons upt)
       (simp add: noised_one_eq comp_def add.commute add.left_commute)
qed

lemma noised_rounds_eq:
  "noised_rounds a rgb na disp n (es, g) =
     (es @ map (\<lambda>j. fst (noised_one a rgb na disp (g\<lparr>pos := pos g + 3 * j\<rparr>))) [0..<2 * n],
      g\<lparr>pos := pos g + 6 * n\<rparr>)"
proof (induction n arbitrary: es g)
  case 0
  then show ?case by simp
next
  case (Suc n)
  have split: "[0..<2 * Suc n] = [0..<2] @ map (\<lambda>j. j + 2) [0..<2 * n]"
  proof -
    have "[0..<2 * Suc n] = [0..<2] @ [2..<2 + 2 * n]"
      by (metis mult_Suc_right upt_add_eq_append zero_le)
    moreover have "map (\<lambda>j. j + 2) [0..<2 * n] = [2..<2 * n + 2]"
      by (rule map_add_upt)
    moreover have "2 * n + 2 = 2 + 2 * n"
      by simp
    ultimately show ?thesis by metis
  qed
  have two: "[0..<2] = [0, Suc 0]"
    by (simp add: numeral_2_eq_2)
  show ?case
    by (simp only: noised_rounds.simps noised_targets_eq Suc.IH split)
       (simp add: comp_def noised_one_eq two add.commute add.left_commute)
qed

lemma noised_dups_length: "length (noised_dups a rgb na disp g) = 10"
  by (simp add: noised_dups_def)

lemma noised_dups_ok: "list_all noised_ok (noised_dups a rgb na disp g)"
  by (simp add: noised_dups_def list_all_iff noised_one_ok)

lemma noised_dups_guided:
  "map guided_noise (noised_dups a rgb na disp g) =
     map (\<lambda>j. Some (noise_level (tape g (pos g + 3 * j)))) [0..<10]"
  by (simp add: noised_dups_def noised_one_eq comp_def)

lemma noised_dups_gamma:
  "map gamma_noise (noised_dups a rgb na disp g) =
     map (\<lambda>j. Some (gamma_level (tape g (pos g + 3 * j + 1)))) [0..<10]"
  by (simp add: noised_dups_def noised_one_eq comp_def)

lemma noised_rounds_5:
  "noised_rounds a rgb na disp 5 (es, g) = (es @ noised_dups a rgb na disp g, g\<lparr>pos := pos g + 30\<rparr>)"
  by (simp add: noised_rounds_eq noised_dups_def)

lemma draws_simps [simp]: "draws [] = 0" "draws (d # ds) = draws_of d + draws ds"
  "draws (ds @ ds') = draws ds + draws ds'"
  by (simp_all add: draws_def)

lemma rendered_one:
  assumes "rendered_noise a g = (gn, g1)"
    and "EntityFlying3d_init imgs dp gn None sf vs nt dr gt g1 = (d, g2)"
  shows "gamma_noise d = None \<and> g2 = g\<lparr>pos := pos g + draws_of d\<rparr>"
proof -
  from assms(1) have g1: "g1 = g\<lparr>pos := pos g + (if gn = None then 0 else 1)\<rparr>"
    by (auto simp: rendered_noise_def py_randint_def draw_def split: if_splits)
  from init_fields [OF assms(2)] have
    d: "gamma_noise d = None" "guided_noise d = gn" "g2 = g1\<lparr>pos := Suc (pos g1)\<rparr>"
    by simp_all
  from d g1 show ?thesis
    by (simp add: draws_of_def)
qed

lemma rendered_nir_loop_app:
  "rendered_nir_loop a rgb rgb0 disp render ns (es, g) = Inr (es', g') \<Longrightarrow>
     \<exists>ds. es' = es @ ds \<and> list_all (\<lambda>d. gamma_noise d = None) ds
          \<and> g' = g\<lparr>pos := pos g + draws ds\<rparr>"
proof (induction ns arbitrary: es g)
  case Nil
  then show ?case by simp
next
  case (Cons n ns)
  from Cons.prems obtain dp where dp: "disp = Inr dp"
    by (auto simp: bnd_eq_Inr Let_def)
  obtain gn g1 where rn: "rendered_noise a g = (gn, g1)"
    by (cases "rendered_noise a g") auto
  obtain d g2 where
    init: "EntityFlying3d_init
             [render, replace ''left'' ''right'' render,
              render_path rgb0 ''frame_shaded_nir'' n,
              replace ''left'' ''right'' (render_path rgb0 ''frame_shaded_nir'' n)]
             dp gn None (args_shift_filter a) (args_vertical_scale a) Rgb
             (args_disparity_right a) (gt_of a rgb) g1 = (d, g2)"
    by (metis surj_pair)
  from Cons.prems have
    rest: "rendered_nir_loop a rgb rgb0 disp render ns (es @ [d], g2) = Inr (es', g')"
    by (simp add: dp rn init Let_def)
  from rendered_one [OF rn init] have d: "gamma_noise d = None" "g2 = g\<lparr>pos := pos g + draws_of d\<rparr>"
    by simp_all
  from Cons.IH [OF rest] obtain ds where
    ds: "es' = (es @ [d]) @ ds" "list_all (\<lambda>d. gamma_noise d = None) ds"
      "g' = g2\<lparr>pos := pos g2 + draws ds\<rparr>"
    by blast
  from d ds have "es' = es @ (d # ds) \<and> list_all (\<lambda>d. gamma_noise d = None) (d # ds)
      \<and> g' = g\<lparr>pos := pos g + draws (d # ds)\<rparr>"
    by (simp add: add.assoc)
  then show ?case by blast
qed

lemma rendered_loop_app:
  "rendered_loop a rgb rgb0 nir disp ir_nir rs (es, g) = Inr (es', g') \<Longrightarrow>
     \<exists>ds. es' = es @ ds \<and> list_all (\<lambda>d. gamma_noise d = None) ds
          \<and> g' = g\<lparr>pos := pos g + draws ds\<rparr>"
proof (induction rs arbitrary: es g)
  case Nil
  then show ?case by simp
next
  case (Cons r rs)
  show ?case
  proof (cases "args_use_rendered_nir a")
    case True
    with Cons.prems obtain es1 g1 where
      inner: "rendered_nir_loop a rgb rgb0 disp (render_path rgb0 ''frame_shaded'' r)
                [0..<nat ir_nir] (es, g) = Inr (es1, g1)"
      and rest: "rendered_loop a rgb rgb0 nir disp ir_nir rs (es1, g1) = Inr (es', g')"
      by (auto simp: bnd_eq_Inr Let_def)
    from rendered_nir_loop_app [OF inner] obtain ds1 where
      ds1: "es1 = es @ ds1" "list_all (\<lambda>d. gamma_noise d = None) ds1"
        "g1 = g\<lparr>pos := pos g + draws ds1\<rparr>"
      by blast
    from Cons.IH [OF rest] obtain ds2 where
      ds2: "es' = es1 @ ds2" "list_all (\<lambda>d. gamma_noise d = None) ds2"
        "g' = g1\<lparr>pos := pos g1 + draws ds2\<rparr>"
      by blast
    from ds1 ds2 have "es' = es @ (ds1 @ ds2)
        \<and> list_all (\<lambda>d. gamma_noise d = None) (ds1 @ ds2)
        \<and> g' = g\<lparr>pos := pos g + draws (ds1 @ ds2)\<rparr>"
      by (simp add: add.assoc)
    then show ?thesis by blast
  next
    case False
    with Cons.prems obtain nir0 nir1 dp where
      nir: "idx nir 0 = Inr nir0" "idx nir 1 = Inr nir1" and dp: "disp = Inr dp"
      by (auto simp: bnd_eq_Inr Let_def)
    obtain gn g1 where rn: "rendered_noise a g = (gn, g1)"
      by (cases "rendered_noise a g") auto
    obtain d g2 where
      init: "EntityFlying3d_init
               [render_path rgb0 ''frame_shaded'' r,
                replace ''left'' ''right'' (render_path rgb0 ''frame_shaded'' r), nir0, nir1]
               dp gn None (args_shift_filter a) (args_vertical_scale a) Rgb
               (args_disparity_right a) (gt_of a rgb) g1 = (d, g2)"
      by (metis surj_pair)
    from nir(2) have nir1: "idx nir (Suc 0) = Inr nir1"
      by simp
    from Cons.prems False have
      rest: "rendered_loop a rgb rgb0 nir disp ir_nir rs (es @ [d], g2) = Inr (es', g')"
      by (simp add: nir(1) nir1 dp rn init Let_def)
    from rendered_one [OF rn init] have
      d: "gamma_noise d = None" "g2 = g\<lparr>pos := pos g + draws_of d\<rparr>"
      by simp_all
    from Cons.IH [OF rest] obtain ds where
      ds: "es' = (es @ [d]) @ ds" "list_all (\<lambda>d. gamma_noise d = None) ds"
        "g' = g2\<lparr>pos := pos g2 + draws ds\<rparr>"
      by blast
    from d ds have "es' = es @ (d # ds) \<and> list_all (\<lambda>d. gamma_noise d = None) (d # ds)
        \<and> g' = g\<lparr>pos := pos g + draws (d # ds)\<rparr>"
      by (simp add: add.assoc)
    then show ?thesis by blast
  qed
qed

lemma base_block_app:
  "base_block a entry na (es, g) = Inr (es', g') \<Longrightarrow>
     \<exists>ds. es' = es @ ds \<and> list_all (\<lambda>d. gamma_noise d = None) ds
          \<and> g' = g\<lparr>pos := pos g + draws ds\<rparr>"
proof (cases "args_synth_no_rgb a")
  case True
  assume "base_block a entry na (es, g) = Inr (es', g')"
  with True have "es' = es @ [] \<and> g' = g"
    by (simp add: base_block_def)
  then show ?thesis
    by (intro exI [of _ "[]"]) simp
next
  case False
  assume "base_block a entry na (es, g) = Inr (es', g')"
  then have b: "base_block a entry na (es, g) = Inr (es', g')" .
  with False obtain rgb disp where
    gl: "get_list entry ''rgb'' = Inr rgb" "get_list entry ''disparity'' = Inr disp"
    by (auto simp: base_block_def bnd_eq_Inr)
  obtain d g1 where
    init: "EntityFlying3d_init (rgb @ na) disp None None (args_shift_filter a) False Rgb
             (args_disparity_right a) (gt_of a rgb) g = (d, g1)"
    by (metis surj_pair)
  from b False have es': "es' = es @ [d]" "g' = g1"
    by (simp_all add: base_block_def gl init)
  from init_fields [OF init] have "gamma_noise d = None" "g1 = g\<lparr>pos := pos g + draws_of d\<rparr>"
    by (simp_all add: draws_of_def)
  with es' have "es' = es @ [d] \<and> list_all (\<lambda>d. gamma_noise d = None) [d]
      \<and> g' = g\<lparr>pos := pos g + draws [d]\<rparr>"
    by simp
  then show ?thesis by blast
qed

lemma rendered_block_app:
  "rendered_block a fs entry nir (es, g) = Inr (es', g') \<Longrightarrow>
     \<exists>ds. es' = es @ ds \<and> list_all (\<lambda>d. gamma_noise d = None) ds
          \<and> g' = g\<lparr>pos := pos g + draws ds\<rparr>"
proof (cases "args_rgb_rendered a")
  case False
  assume "rendered_block a fs entry nir (es, g) = Inr (es', g')"
  with False have "es' = es @ [] \<and> g' = g"
    by (simp add: rendered_block_def)
  then show ?thesis
    by (intro exI [of _ "[]"]) simp
next
  case True
  assume "rendered_block a fs entry nir (es, g) = Inr (es', g')"
  with True obtain rgb rgb0 ir_nir rs where
    "rendered_loop a rgb rgb0 nir (get_list entry ''disparity'') ir_nir rs (es, g) = Inr (es', g')"
    by (auto simp: rendered_block_def bnd_eq_Inr Let_def)
  then show ?thesis
    by (rule rendered_loop_app)
qed

lemma noised_block_app:
  assumes "noised_block a entry na (es, g) = Inr (es', g')"
  shows "if args_noised_input a
         then \<exists>rgb disp. get_list entry ''rgb'' = Inr rgb
                \<and> get_list entry ''disparity'' = Inr disp
                \<and> es' = es @ noised_dups a rgb na disp g
                \<and> g' = g\<lparr>pos := pos g + 30\<rparr>
         else es' = es \<and> g' = g"
proof (cases "args_noised_input a")
  case False
  with assms show ?thesis
    by (simp add: noised_block_def)
next
  case True
  with assms obtain rgb disp where
    "get_list entry ''rgb'' = Inr rgb" "get_list entry ''disparity'' = Inr disp"
    "es' = es @ noised_dups a rgb na disp g" "g' = g\<lparr>pos := pos g + 30\<rparr>"
    by (auto simp: noised_block_def bnd_eq_Inr noised_rounds_5)
  with True show ?thesis
    by auto
qed

lemma validate_block_fields:
  assumes "validate_block fs validate entry st = Inr st'"
  shows "entries st' = entries st \<and> error_cnt st' = error_cnt st \<and> rand st' = rand st
         \<and> validate_entries st' =
             (if validate \<and> record_valid fs entry then validate_entries st @ [entry]
              else validate_entries st)"
proof (cases validate)
  case False
  with assms show ?thesis
    by (simp add: validate_block_def)
next
  case True
  with assms obtain validated where
    c: "check_items fs entry = Inr validated"
    and st': "st' = st\<lparr>validate_entries :=
                (if validated \<and> decodable fs entry then validate_entries st @ [entry]
                 else validate_entries st)\<rparr>"
    by (auto simp: validate_block_def bnd_eq_Inr)
  show ?thesis
    using True by (cases validated) (simp_all add: st' c record_valid_def)
qed

lemma process_entry_Inr:
  assumes "process_entry a fs validate entry0 st = Inr st'"
  shows "\<exists>nir entry pre post.
           derive_nir entry0 = Inr (nir, entry)
           \<and> entries st' = entries st @ pre @ post
           \<and> list_all (\<lambda>d. gamma_noise d = None) pre
           \<and> (if args_noised_input a
               then \<exists>rgb disp. get_list entry ''rgb'' = Inr rgb
                      \<and> get_list entry ''disparity'' = Inr disp
                      \<and> post = noised_dups a rgb
                          (map (replace ''nir_rendered'' ''nir_ambient'') nir) disp
                          ((rand st)\<lparr>pos := pos (rand st) + draws pre\<rparr>)
               else post = [])
           \<and> rand st' = (rand st)\<lparr>pos := pos (rand st) + draws pre
                                      + (if args_noised_input a then 30 else 0)\<rparr>
           \<and> error_cnt st' = error_cnt st
           \<and> validate_entries st' =
               (if validate \<and> record_valid fs entry then validate_entries st @ [entry]
                else validate_entries st)"
proof -
  let ?na = "\<lambda>nir. map (replace ''nir_rendered'' ''nir_ambient'') nir"
  from assms obtain nir entry es1 g1 es2 g2 es3 g3 where
    d: "derive_nir entry0 = Inr (nir, entry)"
    and b: "base_block a entry (?na nir) (entries st, rand st) = Inr (es1, g1)"
    and r: "rendered_block a fs entry nir (es1, g1) = Inr (es2, g2)"
    and n: "noised_block a entry (?na nir) (es2, g2) = Inr (es3, g3)"
    and v: "validate_block fs validate entry (st\<lparr>entries := es3, rand := g3\<rparr>) = Inr st'"
    by (auto simp: process_entry_def bnd_eq_Inr Let_def split: prod.splits)
  from base_block_app [OF b] obtain ds1 where
    ds1: "es1 = entries st @ ds1" "list_all (\<lambda>d. gamma_noise d = None) ds1"
      "g1 = (rand st)\<lparr>pos := pos (rand st) + draws ds1\<rparr>"
    by blast
  from rendered_block_app [OF r] obtain ds2 where
    ds2: "es2 = es1 @ ds2" "list_all (\<lambda>d. gamma_noise d = None) ds2"
      "g2 = g1\<lparr>pos := pos g1 + draws ds2\<rparr>"
    by blast
  have g2: "g2 = (rand st)\<lparr>pos := pos (rand st) + draws (ds1 @ ds2)\<rparr>"
    using ds1(3) ds2(3) by (simp add: add.assoc)
  define post where "post = drop (length es2) es3"
  have post1: "es3 = es2 @ post"
    using noised_block_app [OF n] by (auto simp: post_def split: if_splits)
  have post2: "if args_noised_input a
       then \<exists>rgb disp. get_list entry ''rgb'' = Inr rgb
              \<and> get_list entry ''disparity'' = Inr disp
              \<and> post = noised_dups a rgb (?na nir) disp
                         ((rand st)\<lparr>pos := pos (rand st) + draws (ds1 @ ds2)\<rparr>)
       else post = []"
  proof (cases "args_noised_input a")
    case True
    with noised_block_app [OF n] obtain rgb disp where
      gl: "get_list entry ''rgb'' = Inr rgb" "get_list entry ''disparity'' = Inr disp"
      and "es3 = es2 @ noised_dups a rgb (?na nir) disp g2"
      by auto
    then have "post = noised_dups a rgb (?na nir) disp g2"
      by (simp add: post_def)
    with True gl g2 show ?thesis
      by auto
  next
    case False
    with noised_block_app [OF n] show ?thesis
      by (simp add: post_def)
  qed
  have g3: "g3 = (rand st)\<lparr>pos := pos (rand st) + draws (ds1 @ ds2)
                                + (if args_noised_input a then 30 else 0)\<rparr>"
    using noised_block_app [OF n] g2 by (auto split: if_splits)
  from validate_block_fields [OF v] have
    fields: "entries st' = es3" "error_cnt st' = error_cnt st" "rand st' = g3"
      "validate_entries st' =
         (if validate \<and> record_valid fs entry then validate_entries st @ [entry]
          else validate_entries st)"
    by simp_all
  have "entries st' = entries st @ (ds1 @ ds2) @ post"
    using fields(1) post1 ds1(1) ds2(1) by simp
  moreover have "list_all (\<lambda>d. gamma_noise d = None) (ds1 @ ds2)"
    using ds1(2) ds2(2) by simp
  moreover have "rand st' = (rand st)\<lparr>pos := pos (rand st) + draws (ds1 @ ds2)
                                + (if args_noised_input a then 30 else 0)\<rparr>"
    using fields(3) g3 by simp
  ultimately show ?thesis
    using d post2 fields(2,4) by blast
qed

lemma ex_derive_a:
  "derive_nir (ex_entry ''a'') =
     Inr ([''nir_rendered/a/left.png'', ''nir_rendered/a/right.png''],
          ex_entry ''a'' @ [(''nir'', PTuple [''nir_rendered/a/left.png'', ''nir_rendered/a/right.png''])])"
  by (simp add: derive_nir_def ex_entry_def has_key_def get_list_def idx_def set_key_def Let_def)

lemma ex_process_a:
  assumes "\<not> args_rgb_rendered a"
  shows "\<exists>st'. process_entry a fs False (ex_entry ''a'') st = Inr st'
           \<and> length (entries st') =
               length (entries st) + (if args_synth_no_rgb a then 0 else 1)
                 + (if args_noised_input a then 10 else 0)"
proof -
  let ?e = "ex_entry ''a'' @
              [(''nir'', PTuple [''nir_rendered/a/left.png'', ''nir_rendered/a/right.png''])]"
  have gl: "get_list ?e ''rgb'' = Inr [''frames_cleanpass/a/left.png'', ''frames_cleanpass/a/right.png'']"
    "get_list ?e ''disparity'' = Inr [''disparity/a/left.pfm'']"
    by (simp_all add: ex_entry_def get_list_def)
  show ?thesis
    using assms
    by (simp add: process_entry_def ex_derive_a gl base_block_def rendered_block_def
        noised_block_def validate_block_def noised_rounds_5 noised_dups_length
        split: prod.splits)
qed

lemma ex_fs_json: "fs_json (ex_fs manifest missing) ''m.json'' = Inr manifest"
  by (simp add: ex_fs_def)

text \<open>
  C2, as stated, fails: with noised-duplicate mode set (and the base descriptor
  suppressed) a manifest of one record expands to ten descriptors, not five.
\<close>

theorem noised_duplicates_five_counterexample:
  "map_sum id (length \<circ> ld_entries)
     (flow3d_driving_json ex_noised (ex_fs [ex_entry ''a''] []) ''m.json'' False ex_rng) = Inr 10"
proof -
  have nr: "\<not> args_rgb_rendered ex_noised"
    by (simp add: ex_noised_def ex_args_def)
  obtain st' where
    p: "process_entry ex_noised (ex_fs [ex_entry ''a''] []) False (ex_entry ''a'')
          (init_state ex_rng) = Inr st'"
    and len: "length (entries st') = 10"
    using ex_process_a [OF nr, of "ex_fs [ex_entry ''a''] []" "init_state ex_rng"]
    by (auto simp: ex_noised_def ex_args_def init_state_def)
  have nf: "\<not> args_synth_no_filter ex_noised" "\<not> args_fast_test ex_noised"
    by (simp_all add: ex_noised_def ex_args_def)
  show ?thesis
    by (simp add: flow3d_driving_json_def ex_fs_json nf p len)
qed

lemma noised_dups_eq:
  "noised_dups a rgb na disp g =
     map (\<lambda>j. noised_dup a rgb na disp (tape g) (pos g + 3 * j)) [0..<10]"
  by (simp add: noised_dups_def noised_one_eq noised_dup_def)

text \<open>
  C2, amended. For every record the loop body processes with noised-duplicate mode set,
  the descriptors appended for it end with exactly ten noised duplicates (five rounds
  of two, both with the default colour target): descriptors of the record's colour and
  ambient NIR paths and of its disparity paths. Each has a guided-noise level in
  \<open>[0, 20)\<close> and a gamma factor in \<open>[0, 2)\<close>, computed from its own draws of the
  loader's random source: when the descriptors \<open>pre\<close> before them have taken
  \<open>draws pre\<close> draws, the \<open>j\<close>-th duplicate takes the next three after \<open>3 j\<close> more, for
  its level, its factor and its shift distance. The descriptors before the duplicates
  carry no gamma factor.
\<close>

theorem noised_duplicates_ten:
  assumes "process_entry a fs validate entry st = Inr st'"
    and "args_noised_input a"
  shows "\<exists>pre dups nir entry' rgb disp.
           entries st' = entries st @ pre @ dups
           \<and> list_all (\<lambda>d. gamma_noise d = None) pre
           \<and> length dups = 10
           \<and> list_all noised_ok dups
           \<and> map guided_noise dups =
               map (\<lambda>j. Some (noise_level
                      (tape (rand st) (pos (rand st) + draws pre + 3 * j)))) [0..<10]
           \<and> map gamma_noise dups =
               map (\<lambda>j. Some (gamma_level
                      (tape (rand st) (pos (rand st) + draws pre + 3 * j + 1)))) [0..<10]
           \<and> derive_nir entry = Inr (nir, entry')
           \<and> get_list entry' ''rgb'' = Inr rgb
           \<and> get_list entry' ''disparity'' = Inr disp
           \<and> dups = map (\<lambda>j. noised_dup a rgb
                               (map (replace ''nir_rendered'' ''nir_ambient'') nir) disp
                               (tape (rand st)) (pos (rand st) + draws pre + 3 * j)) [0..<10]
           \<and> rand st' = (rand st)\<lparr>pos := pos (rand st) + draws pre + 30\<rparr>"
proof -
  from process_entry_Inr [OF assms(1)] assms(2) obtain nir entry' pre rgb disp where
    d: "derive_nir entry = Inr (nir, entry')"
    and gl: "get_list entry' ''rgb'' = Inr rgb" "get_list entry' ''disparity'' = Inr disp"
    and e: "entries st' = entries st @ pre
       @ noised_dups a rgb (map (replace ''nir_rendered'' ''nir_ambient'') nir) disp
           ((rand st)\<lparr>pos := pos (rand st) + draws pre\<rparr>)"
    and pre: "list_all (\<lambda>d. gamma_noise d = None) pre"
    and g: "rand st' = (rand st)\<lparr>pos := pos (rand st) + draws pre + 30\<rparr>"
    by auto
  let ?g0 = "(rand st)\<lparr>pos := pos (rand st) + draws pre\<rparr>"
  let ?dups = "noised_dups a rgb (map (replace ''nir_rendered'' ''nir_ambient'') nir) disp ?g0"
  have gd: "map guided_noise ?dups =
      map (\<lambda>j. Some (noise_level (tape (rand st) (pos (rand st) + draws pre + 3 * j)))) [0..<10]"
    using noised_dups_guided [of a rgb _ disp ?g0] by simp
  have gm: "map gamma_noise ?dups =
      map (\<lambda>j. Some (gamma_level (tape (rand st) (pos (rand st) + draws pre + 3 * j + 1)))) [0..<10]"
    using noised_dups_gamma [of a rgb _ disp ?g0] by simp
  have eq: "?dups = map (\<lambda>j. noised_dup a rgb
                               (map (replace ''nir_rendered'' ''nir_ambient'') nir) disp
                               (tape (rand st)) (pos (rand st) + draws pre + 3 * j)) [0..<10]"
    using noised_dups_eq [of a rgb _ disp ?g0] by simp
  have "entries st' = entries st @ pre @ ?dups
        \<and> list_all (\<lambda>d. gamma_noise d = None) pre
        \<and> length ?dups = 10
        \<and> list_all noised_ok ?dups"
    using e pre noised_dups_length noised_dups_ok by blast
  with gd gm d gl eq g show ?thesis
    by blast
qed

lemma ex_levels:
  "noise_level 0 = 0"
  "noise_level 1688849860263936 = 18"
  "noise_level 3377699720527872 = 17"
  "noise_level 5066549580791808 = 16"
  "noise_level 6755399441055744 = 15"
  "noise_level 8444249301319680 = 13"
  "noise_level 10133099161583616 = 12"
  "noise_level 11821949021847552 = 11"
  "noise_level 13510798882111488 = 10"
  "noise_level 15199648742375424 = 8"
  by (simp_all add: noise_level_def fl_int_def fl_mod_def fl_mul_def fl_round_def
      round_half_even_def bitlen.simps Let_def)

lemma ex_spread_levels:
  "map (\<lambda>j. Some (noise_level (tape ex_spread (pos ex_spread + 3 * j)))) [0..<10]
     = map Some [0, 18, 17, 16, 15, 13, 12, 11, 10, 8]"
proof -
  have upt: "[0..<10] = [0, 1, 2, 3, 4, 5, 6, 7, 8, 9::nat]"
    by (simp add: upt_rec)
  show ?thesis
    unfolding upt by (simp add: ex_spread_def ex_levels)
qed

lemma ex_spread_factors:
  "map (\<lambda>j. Some (gamma_level (tape ex_spread (pos ex_spread + 3 * j + 1)))) [0..<10]
     = map Some [1 / 8, 1 / 2, 7 / 8, 5 / 4, 13 / 8, 0, 3 / 8, 3 / 4, 9 / 8, 3 / 2]"
proof -
  have upt: "[0..<10] = [0, 1, 2, 3, 4, 5, 6, 7, 8, 9::nat]"
    by (simp add: upt_rec)
  show ?thesis
    unfolding upt by (simp add: ex_spread_def gamma_level_eq)
qed

theorem noised_duplicates_ten_witness:
  "args_noised_input ex_noised \<and>
   (\<exists>st'. process_entry ex_noised (ex_fs [ex_entry ''a''] []) False (ex_entry ''a'')
            (init_state ex_spread) = Inr st'
      \<and> map guided_noise (entries st') = map Some [0, 18, 17, 16, 15, 13, 12, 11, 10, 8]
      \<and> map gamma_noise (entries st') =
          map Some [1 / 8, 1 / 2, 7 / 8, 5 / 4, 13 / 8, 0, 3 / 8, 3 / 4, 9 / 8, 3 / 2]
      \<and> pos (rand st') = 30)"
proof -
  have n: "args_noised_input ex_noised" and nr: "\<not> args_rgb_rendered ex_noised"
    and nb: "args_synth_no_rgb ex_noised"
    by (simp_all add: ex_noised_def ex_args_def)
  from ex_process_a [OF nr, of "ex_fs [ex_entry ''a''] []" "init_state ex_spread"] n nb
  obtain st' where
    p: "process_entry ex_noised (ex_fs [ex_entry ''a''] []) False (ex_entry ''a'')
          (init_state ex_spread) = Inr st'"
    and len: "length (entries st') = 10"
    by (auto simp: init_state_def)
  from noised_duplicates_ten [OF p n] obtain pre dups where
    e: "entries st' = entries (init_state ex_spread) @ pre @ dups"
    and l: "length dups = 10"
    and gd: "map guided_noise dups =
               map (\<lambda>j. Some (noise_level
                      (tape (rand (init_state ex_spread))
                         (pos (rand (init_state ex_spread)) + draws pre + 3 * j)))) [0..<10]"
    and gm: "map gamma_noise dups =
               map (\<lambda>j. Some (gamma_level
                      (tape (rand (init_state ex_spread))
                         (pos (rand (init_state ex_spread)) + draws pre + 3 * j + 1)))) [0..<10]"
    and g: "rand st' = (rand (init_state ex_spread))
              \<lparr>pos := pos (rand (init_state ex_spread)) + draws pre + 30\<rparr>"
    by blast
  from e l len have pre: "pre = []" and es: "entries st' = dups"
    by (simp_all add: init_state_def)
  have r: "rand (init_state ex_spread) = ex_spread"
    by (simp add: init_state_def)
  from gd have "map guided_noise (entries st') = map Some [0, 18, 17, 16, 15, 13, 12, 11, 10, 8]"
    unfolding pre es r using ex_spread_levels by simp
  moreover from gm have "map gamma_noise (entries st') =
      map Some [1 / 8, 1 / 2, 7 / 8, 5 / 4, 13 / 8, 0, 3 / 8, 3 / 4, 9 / 8, 3 / 2]"
    unfolding pre es r using ex_spread_factors by simp
  moreover from g have "pos (rand st') = 30"
    unfolding pre r by (simp add: ex_spread_def)
  ultimately show ?thesis
    using n p by blast
qed

subsection \<open>The loop over the manifest\<close>

lemma process_entry_mono:
  "process_entry a fs validate entry st = Inr st' \<Longrightarrow> length (entries st) \<le> length (entries st')"
  using process_entry_Inr [of a fs validate entry st st'] by auto

lemma process_entry_with_nir:
  assumes "process_entry a fs validate entry0 st = Inr st'"
  shows "error_cnt st' = error_cnt st
         \<and> validate_entries st' =
             (if validate \<and> record_valid fs (with_nir entry0)
              then validate_entries st @ [with_nir entry0] else validate_entries st)"
  using process_entry_Inr [OF assms] by (auto simp: with_nir_def)

lemma expand_all_mono:
  "expand_all a fs validate es st = Inr st' \<Longrightarrow> length (entries st) \<le> length (entries st')"
proof (induction es arbitrary: st)
  case Nil
  then show ?case by simp
next
  case (Cons e es)
  show ?case
  proof (cases "args_synth_no_filter a \<and> has_key e ''frame_burnt_filtered''")
    case True
    with Cons show ?thesis by simp
  next
    case False
    with Cons.prems obtain st1 where
      p: "process_entry a fs validate e st = Inr st1"
      and rest: "expand_all a fs validate es st1 = Inr st'"
      by (auto simp: bnd_eq_Inr)
    from process_entry_mono [OF p] Cons.IH [OF rest] show ?thesis
      by simp
  qed
qed

lemma expand_loop_short:
  "\<not> args_fast_test a \<Longrightarrow> i + length es \<le> 1501 \<Longrightarrow>
     expand_loop a fs validate i es st = expand_all a fs validate es st"
proof (induction es arbitrary: i st)
  case Nil
  then show ?case by simp
next
  case (Cons e es)
  from Cons.prems have i: "\<not> i > 1500" and nxt: "Suc i + length es \<le> 1501"
    by simp_all
  have IH: "expand_loop a fs validate (Suc i) es st1 = expand_all a fs validate es st1" for st1
    using Cons.IH [OF Cons.prems(1) nxt] .
  show ?case
    using Cons.prems(1) i by (cases "process_entry a fs validate e st") (simp_all add: IH)
qed

lemma expand_loop_small:
  "expand_all a fs validate es st = Inr st' \<Longrightarrow> length (entries st') \<le> 20000 \<Longrightarrow>
     expand_loop a fs validate i es st = Inr st'"
proof (induction es arbitrary: i st)
  case Nil
  then show ?case by simp
next
  case (Cons e es)
  from expand_all_mono [OF Cons.prems(1)] Cons.prems(2) have small: "\<not> length (entries st) > 20000"
    by simp
  show ?case
  proof (cases "args_synth_no_filter a \<and> has_key e ''frame_burnt_filtered''")
    case True
    with Cons show ?thesis by simp
  next
    case False
    with Cons.prems obtain st1 where
      p: "process_entry a fs validate e st = Inr st1"
      and rest: "expand_all a fs validate es st1 = Inr st'"
      by (auto simp: bnd_eq_Inr)
    from Cons.IH [OF rest Cons.prems(2)] False small p show ?thesis
      by auto
  qed
qed

lemma find_map_Suc: "find P (map f xs) = map_option f (find (\<lambda>x. P (f x)) xs)"
  by (induction xs) simp_all

lemma expand_all_skipped:
  "skipped a e \<Longrightarrow> expand_all a fs v (e # es) st = expand_all a fs v es st"
  by (simp add: skipped_def)

lemma expand_all_step:
  "\<not> skipped a e \<Longrightarrow>
     expand_all a fs v (e # es) st = bnd (process_entry a fs v e st) (expand_all a fs v es)"
  by (auto simp: skipped_def)

lemma expand_loop_skipped:
  "skipped a e \<Longrightarrow> expand_loop a fs v i (e # es) st = expand_loop a fs v (Suc i) es st"
  by (simp add: skipped_def)

lemma expand_loop_capped:
  "\<not> skipped a e \<Longrightarrow> cap_reached a (length (entries st)) i \<Longrightarrow>
     expand_loop a fs v i (e # es) st = Inr st"
  by (auto simp: skipped_def cap_reached_def)

lemma expand_loop_step:
  "\<not> skipped a e \<Longrightarrow> \<not> cap_reached a (length (entries st)) i \<Longrightarrow>
     expand_loop a fs v i (e # es) st =
       bnd (process_entry a fs v e st) (expand_loop a fs v (Suc i) es)"
  by (auto simp: skipped_def cap_reached_def)

lemma capped_at_0:
  "capped_at a fs v i (e # es) st 0 = (\<not> skipped a e \<and> cap_reached a (length (entries st)) i)"
  by (simp add: capped_at_def)

lemma capped_at_Suc_skipped:
  "skipped a e \<Longrightarrow> capped_at a fs v i (e # es) st (Suc m) = capped_at a fs v (Suc i) es st m"
  by (simp add: capped_at_def expand_all_skipped del: expand_all.simps split: sum.splits)

lemma capped_at_Suc:
  "\<not> skipped a e \<Longrightarrow> process_entry a fs v e st = Inr st1 \<Longrightarrow>
     capped_at a fs v i (e # es) st (Suc m) = capped_at a fs v (Suc i) es st1 m"
  by (simp add: capped_at_def expand_all_step del: expand_all.simps split: sum.splits)

lemma stop_index_Cons:
  "stop_index a fs v i (e # es) st =
     (if capped_at a fs v i (e # es) st 0 then 0
      else Suc (case find (\<lambda>m. capped_at a fs v i (e # es) st (Suc m)) [0..<length es] of
                  Some m \<Rightarrow> m | None \<Rightarrow> length es))"
proof -
  have upt: "[0..<length (e # es)] = 0 # map Suc [0..<length es]"
    by (metis length_Cons map_Suc_upt upt_conv_Cons zero_less_Suc)
  show ?thesis
    unfolding stop_index_def upt
    by (simp add: find_map_Suc split: option.splits)
qed

lemma stop_index_skipped:
  "skipped a e \<Longrightarrow> stop_index a fs v i (e # es) st = Suc (stop_index a fs v (Suc i) es st)"
  by (simp add: stop_index_Cons capped_at_0 capped_at_Suc_skipped) (simp add: stop_index_def)

lemma stop_index_capped:
  "\<not> skipped a e \<Longrightarrow> cap_reached a (length (entries st)) i \<Longrightarrow>
     stop_index a fs v i (e # es) st = 0"
  by (simp add: stop_index_Cons capped_at_0)

lemma stop_index_step:
  "\<not> skipped a e \<Longrightarrow> \<not> cap_reached a (length (entries st)) i \<Longrightarrow>
   process_entry a fs v e st = Inr st1 \<Longrightarrow>
     stop_index a fs v i (e # es) st = Suc (stop_index a fs v (Suc i) es st1)"
  by (simp add: stop_index_Cons capped_at_0 capped_at_Suc) (simp add: stop_index_def)

lemma stop_index_pos:
  "\<not> cap_reached a (length (entries st)) i \<Longrightarrow>
     \<exists>n. stop_index a fs v i (e # es) st = Suc n"
  by (simp add: stop_index_Cons capped_at_0)

lemma expand_loop_stop:
  "expand_loop a fs v i es st = expand_all a fs v (take (stop_index a fs v i es st) es) st"
proof (induction es arbitrary: i st)
  case Nil
  then show ?case by simp
next
  case (Cons e es)
  show ?case
  proof (cases "skipped a e")
    case True
    then show ?thesis
      by (simp add: expand_loop_skipped stop_index_skipped expand_all_skipped Cons.IH
          del: expand_loop.simps expand_all.simps)
  next
    case ns: False
    show ?thesis
    proof (cases "cap_reached a (length (entries st)) i")
      case True
      with ns show ?thesis
        by (simp add: expand_loop_capped stop_index_capped del: expand_loop.simps)
    next
      case nc: False
      note loop = expand_loop_step [OF ns nc]
      show ?thesis
      proof (cases "process_entry a fs v e st")
        case (Inl err)
        from nc obtain n where "stop_index a fs v i (e # es) st = Suc n"
          using stop_index_pos by blast
        with ns Inl show ?thesis
          by (simp add: loop expand_all_step del: expand_loop.simps expand_all.simps)
      next
        case (Inr st1)
        from stop_index_step [OF ns nc Inr] ns Inr show ?thesis
          by (simp add: loop expand_all_step Cons.IH del: expand_loop.simps expand_all.simps)
      qed
    qed
  qed
qed

lemma expand_all_validate:
  "expand_all a fs v es st = Inr st' \<Longrightarrow>
     error_cnt st' = error_cnt st
     \<and> validate_entries st' = validate_entries st @ (if v then survivors a fs es else [])"
proof (induction es arbitrary: st)
  case Nil
  then show ?case by (simp add: survivors_def)
next
  case (Cons e es)
  show ?case
  proof (cases "skipped a e")
    case True
    with Cons.prems have "expand_all a fs v es st = Inr st'"
      by (simp add: expand_all_skipped del: expand_all.simps)
    from Cons.IH [OF this] True show ?thesis
      by (simp add: survivors_def)
  next
    case False
    with Cons.prems obtain st1 where
      p: "process_entry a fs v e st = Inr st1"
      and rest: "expand_all a fs v es st1 = Inr st'"
      by (auto simp: expand_all_step bnd_eq_Inr simp del: expand_all.simps)
    from process_entry_with_nir [OF p] Cons.IH [OF rest] False show ?thesis
      by (simp add: survivors_def)
  qed
qed

subsection \<open>Validation\<close>

lemma ex_derive_b:
  "derive_nir (ex_entry ''b'') =
     Inr ([''nir_rendered/b/left.png'', ''nir_rendered/b/right.png''],
          ex_entry ''b'' @ [(''nir'', PTuple [''nir_rendered/b/left.png'', ''nir_rendered/b/right.png''])])"
  by (simp add: derive_nir_def ex_entry_def has_key_def get_list_def idx_def set_key_def Let_def)

lemma ex_with_nir_a:
  "with_nir (ex_entry ''a'') =
     ex_entry ''a'' @ [(''nir'', PTuple [''nir_rendered/a/left.png'', ''nir_rendered/a/right.png''])]"
  by (simp add: with_nir_def ex_derive_a)

lemma ex_with_nir_b:
  "with_nir (ex_entry ''b'') =
     ex_entry ''b'' @ [(''nir'', PTuple [''nir_rendered/b/left.png'', ''nir_rendered/b/right.png''])]"
  by (simp add: with_nir_def ex_derive_b)

lemma ex_valid_a: "record_valid (ex_fs m ex_missing) (with_nir (ex_entry ''a''))"
  unfolding ex_with_nir_a
  by (simp add: record_valid_def ex_entry_def ex_fs_def ex_missing_def
      idx_def decodable_def get_list_def)

lemma ex_valid_b: "\<not> record_valid (ex_fs m ex_missing) (with_nir (ex_entry ''b''))"
  unfolding ex_with_nir_b
  by (simp add: record_valid_def ex_entry_def ex_fs_def ex_missing_def idx_def)

lemma ex_process_validate_a:
  "\<exists>st'. process_entry ex_args fs True (ex_entry ''a'') st = Inr st'"
proof -
  let ?e = "ex_entry ''a'' @
              [(''nir'', PTuple [''nir_rendered/a/left.png'', ''nir_rendered/a/right.png''])]"
  have gl: "get_list ?e ''rgb'' = Inr [''frames_cleanpass/a/left.png'', ''frames_cleanpass/a/right.png'']"
    "get_list ?e ''disparity'' = Inr [''disparity/a/left.pfm'']"
    by (simp_all add: ex_entry_def get_list_def)
  have "\<exists>b. check_items fs ?e = Inr b"
    by (auto simp: ex_entry_def idx_def)
  then obtain b where c: "check_items fs ?e = Inr b" ..
  show ?thesis
    by (simp add: process_entry_def ex_derive_a gl c base_block_def rendered_block_def
        noised_block_def validate_block_def ex_args_def split: prod.splits)
qed

lemma ex_process_validate_b:
  "\<exists>st'. process_entry ex_args fs True (ex_entry ''b'') st = Inr st'"
proof -
  let ?e = "ex_entry ''b'' @
              [(''nir'', PTuple [''nir_rendered/b/left.png'', ''nir_rendered/b/right.png''])]"
  have gl: "get_list ?e ''rgb'' = Inr [''frames_cleanpass/b/left.png'', ''frames_cleanpass/b/right.png'']"
    "get_list ?e ''disparity'' = Inr [''disparity/b/left.pfm'']"
    by (simp_all add: ex_entry_def get_list_def)
  have "\<exists>b. check_items fs ?e = Inr b"
    by (auto simp: ex_entry_def idx_def)
  then obtain b where c: "check_items fs ?e = Inr b" ..
  show ?thesis
    by (simp add: process_entry_def ex_derive_b gl c base_block_def rendered_block_def
        noised_block_def validate_block_def ex_args_def split: prod.splits)
qed

lemma ex_dump_kept: "[json_dump_entry (with_nir (ex_entry ''a''))] = ex_kept"
  unfolding ex_with_nir_a
  by (simp add: json_dump_entry_def ex_entry_def ex_kept_def)

lemma ex_loop_two:
  assumes "process_entry ex_args fs True (ex_entry ''a'') st0 = Inr st1"
    and "process_entry ex_args fs True (ex_entry ''b'') st1 = Inr st2"
  shows "expand_loop ex_args fs True 0 ex_two st0 = Inr st2"
proof -
  have flags: "\<not> args_synth_no_filter ex_args" "\<not> args_fast_test ex_args"
    by (simp_all add: ex_args_def)
  show ?thesis
    by (simp add: ex_two_def flags assms)
qed

lemma ex_validation_run:
  "\<exists>r. flow3d_driving_json ex_args (ex_fs ex_two ex_missing) ''m.json'' True ex_rng = Inr r
       \<and> ld_stdout r = [(''Error Cnt '', 0)]
       \<and> fs_json (ld_fs r) ''m.json'' = Inr ex_kept"
proof -
  let ?fs = "ex_fs ex_two ex_missing"
  obtain st1 where p1: "process_entry ex_args ?fs True (ex_entry ''a'') (init_state ex_rng) = Inr st1"
    using ex_process_validate_a by blast
  obtain st2 where p2: "process_entry ex_args ?fs True (ex_entry ''b'') st1 = Inr st2"
    using ex_process_validate_b by blast
  note loop = ex_loop_two [OF p1 p2]
  from process_entry_with_nir [OF p1] ex_valid_a have
    s1: "error_cnt st1 = 0" "validate_entries st1 = [with_nir (ex_entry ''a'')]"
    by (simp_all add: init_state_def)
  from process_entry_with_nir [OF p2] ex_valid_b s1 have
    s2: "error_cnt st2 = 0" "validate_entries st2 = [with_nir (ex_entry ''a'')]"
    by simp_all
  show ?thesis
    by (simp add: flow3d_driving_json_def ex_fs_json loop s2 ex_dump_kept)
qed

text \<open>
  C4. At a manifest of one record whose files all exist and one whose NIR rendering is
  missing, validation keeps only the first record and prints \<open>Error Cnt 0\<close>: the
  counter is initialised and printed, and nothing increments it.
\<close>

theorem validation_error_count_stays_zero:
  "map_sum id ld_stdout
     (flow3d_driving_json ex_args (ex_fs ex_two ex_missing) ''m.json'' True ex_rng)
     = Inr [(''Error Cnt '', 0)]
   \<and> map_sum id (\<lambda>r. fs_json (ld_fs r) ''m.json'')
       (flow3d_driving_json ex_args (ex_fs ex_two ex_missing) ''m.json'' True ex_rng)
     = Inr (Inr ex_kept)"
  using ex_validation_run by auto

text \<open>
  C3, as stated, fails: after validation of the same manifest the file \<open>m.json\<close> no
  longer holds what it held before.
\<close>

theorem validation_leaves_manifest_counterexample:
  "map_sum id (\<lambda>r. fs_json (ld_fs r) ''m.json'' = fs_json (ex_fs ex_two ex_missing) ''m.json'')
     (flow3d_driving_json ex_args (ex_fs ex_two ex_missing) ''m.json'' True ex_rng)
   = Inr False"
proof -
  have "ex_kept \<noteq> ex_two"
    by (simp add: ex_kept_def ex_two_def)
  then show ?thesis
    using ex_validation_run by (auto simp: ex_fs_json)
qed

text \<open>
  C3, amended. The loader returns the expanded descriptor list, never the manifest: the
  descriptors accumulated over the records the loop goes through, which are the records
  before the stop index. In validation mode it overwrites the manifest file itself with
  the surviving records, and with exactly these: of the records the loop goes through,
  in their order, those not filtered out that pass the path check and whose left
  disparity decodes, each with its NIR pair. Nothing else of the file system changes,
  and without validation nothing changes at all.
\<close>

theorem validation_overwrites_manifest:
  assumes "flow3d_driving_json a fs filename validate g = Inr r"
  shows "\<exists>manifest st.
           fs_json fs filename = Inr manifest
           \<and> expand_all a fs validate
               (take (stop_index a fs validate 0 manifest (init_state g)) manifest)
               (init_state g) = Inr st
           \<and> ld_entries r = entries st
           \<and> ld_rand r = rand st
           \<and> fs_exists (ld_fs r) = fs_exists fs \<and> fs_pfm_ok (ld_fs r) = fs_pfm_ok fs
           \<and> ld_fs r =
               (if validate
                then fs\<lparr>fs_json := (fs_json fs)
                       (filename := Inr (map json_dump_entry
                          (survivors a fs
                             (take (stop_index a fs validate 0 manifest (init_state g))
                                manifest))))\<rparr>
                else fs)"
proof -
  from assms obtain manifest st where
    m: "fs_json fs filename = Inr manifest"
    and loop: "expand_loop a fs validate 0 manifest (init_state g) = Inr st"
    and r: "r = (if validate
                 then \<lparr>ld_entries = entries st,
                       ld_fs = fs\<lparr>fs_json := (fs_json fs)
                                  (filename := Inr (map json_dump_entry (validate_entries st)))\<rparr>,
                       ld_stdout = [(''Error Cnt '', error_cnt st)],
                       ld_rand = rand st\<rparr>
                 else \<lparr>ld_entries = entries st, ld_fs = fs, ld_stdout = [], ld_rand = rand st\<rparr>)"
    by (auto simp: flow3d_driving_json_def bnd_eq_Inr split: if_splits)
  let ?n = "stop_index a fs validate 0 manifest (init_state g)"
  from loop have all: "expand_all a fs validate (take ?n manifest) (init_state g) = Inr st"
    by (simp add: expand_loop_stop)
  from expand_all_validate [OF all] have
    v: "validate_entries st = (if validate then survivors a fs (take ?n manifest) else [])"
    by (simp add: init_state_def)
  show ?thesis
  proof (cases validate)
    case True
    with r m all v show ?thesis
      by auto
  next
    case False
    with r m all show ?thesis
      by auto
  qed
qed

theorem validation_overwrites_manifest_witness:
  "\<exists>r. flow3d_driving_json ex_args (ex_fs ex_two ex_missing) ''m.json'' True ex_rng = Inr r
       \<and> fs_json (ld_fs r) ''m.json'' = Inr ex_kept
       \<and> (\<exists>manifest st.
             fs_json (ex_fs ex_two ex_missing) ''m.json'' = Inr manifest
             \<and> expand_all ex_args (ex_fs ex_two ex_missing) True
                 (take (stop_index ex_args (ex_fs ex_two ex_missing) True 0 manifest
                          (init_state ex_rng)) manifest)
                 (init_state ex_rng) = Inr st
             \<and> ld_entries r = entries st
             \<and> ld_rand r = rand st
             \<and> fs_exists (ld_fs r) = fs_exists (ex_fs ex_two ex_missing)
             \<and> fs_pfm_ok (ld_fs r) = fs_pfm_ok (ex_fs ex_two ex_missing)
             \<and> ld_fs r =
                 (ex_fs ex_two ex_missing)\<lparr>fs_json := (fs_json (ex_fs ex_two ex_missing))
                    (''m.json'' := Inr (map json_dump_entry
                       (survivors ex_args (ex_fs ex_two ex_missing)
                          (take (stop_index ex_args (ex_fs ex_two ex_missing) True 0 manifest
                                   (init_state ex_rng)) manifest))))\<rparr>)"
proof -
  from ex_validation_run obtain r where
    r: "flow3d_driving_json ex_args (ex_fs ex_two ex_missing) ''m.json'' True ex_rng = Inr r"
    and k: "fs_json (ld_fs r) ''m.json'' = Inr ex_kept"
    by blast
  from validation_overwrites_manifest [OF r] r k show ?thesis
    by auto
qed

subsection \<open>The cap on accumulated samples\<close>

lemma ex_process_capped:
  "\<exists>st'. process_entry ex_capped fs False (ex_entry ''a'') st = Inr st'
         \<and> length (entries st') = length (entries st) + 11"
proof -
  have flags: "\<not> args_rgb_rendered ex_capped" "\<not> args_synth_no_rgb ex_capped"
    "args_noised_input ex_capped"
    by (simp_all add: ex_capped_def ex_args_def)
  from ex_process_a [OF flags(1), of fs st] show ?thesis
    by (simp add: flags add.commute)
qed

lemma ex_loop_capped:
  "length (entries st) = 11 * i \<Longrightarrow> i \<le> 1819 \<Longrightarrow>
     \<exists>st'. expand_loop ex_capped fs False i (replicate n (ex_entry ''a'')) st = Inr st'
           \<and> length (entries st') = 11 * min (i + n) 1819"
proof (induction n arbitrary: i st)
  case 0
  then show ?case by simp
next
  case (Suc n)
  have flags: "\<not> args_synth_no_filter ex_capped" "\<not> args_fast_test ex_capped"
    by (simp_all add: ex_capped_def ex_args_def)
  show ?case
  proof (cases "i = 1819")
    case True
    with Suc.prems have "length (entries st) > 20000 \<and> i > 1500"
      by simp
    then have "expand_loop ex_capped fs False i (replicate (Suc n) (ex_entry ''a'')) st = Inr st"
      by (simp add: flags)
    with True Suc.prems show ?thesis
      by simp
  next
    case False
    with Suc.prems have lt: "i < 1819"
      by simp
    with Suc.prems have guard: "\<not> (length (entries st) > 20000 \<and> i > 1500)"
      by simp
    obtain st1 where
      p: "process_entry ex_capped fs False (ex_entry ''a'') st = Inr st1"
      and len: "length (entries st1) = length (entries st) + 11"
      using ex_process_capped by blast
    from len Suc.prems(1) have l1: "length (entries st1) = 11 * Suc i"
      by simp
    from lt have "Suc i \<le> 1819"
      by simp
    from Suc.IH [OF l1 this] obtain st' where
      "expand_loop ex_capped fs False (Suc i) (replicate n (ex_entry ''a'')) st1 = Inr st'"
      "length (entries st') = 11 * min (Suc i + n) 1819"
      by blast
    with guard p show ?thesis
      by (auto simp: flags)
  qed
qed

lemma ex_all_capped:
  "\<exists>st'. expand_all ex_capped fs False (replicate n (ex_entry ''a'')) st = Inr st'
         \<and> length (entries st') = length (entries st) + 11 * n"
proof (induction n arbitrary: st)
  case 0
  then show ?case by simp
next
  case (Suc n)
  have flags: "\<not> args_synth_no_filter ex_capped"
    by (simp add: ex_capped_def ex_args_def)
  obtain st1 where
    p: "process_entry ex_capped fs False (ex_entry ''a'') st = Inr st1"
    and len: "length (entries st1) = length (entries st) + 11"
    using ex_process_capped by blast
  from Suc.IH [of st1] obtain st' where
    "expand_all ex_capped fs False (replicate n (ex_entry ''a'')) st1 = Inr st'"
    "length (entries st') = length (entries st1) + 11 * n"
    by blast
  with p len show ?case
    by (simp add: flags)
qed

text \<open>
  C5, as stated, fails: with the fast-test flag unset, a manifest of 2000 records that
  yield 11 descriptors each is cut off at record 1819: 20009 descriptors are returned,
  where processing every record gives 22000.
\<close>

theorem expansion_cap_without_fast_test_counterexample:
  "\<not> args_fast_test ex_capped
   \<and> map_sum id (length \<circ> ld_entries)
       (flow3d_driving_json ex_capped (ex_fs ex_many []) ''m.json'' False ex_rng) = Inr 20009
   \<and> map_sum id (length \<circ> entries)
       (expand_all ex_capped (ex_fs ex_many []) False ex_many (init_state ex_rng)) = Inr 22000"
proof -
  have ft: "\<not> args_fast_test ex_capped"
    by (simp add: ex_capped_def ex_args_def)
  have "length (entries (init_state ex_rng)) = 11 * 0"
    by (simp add: init_state_def)
  from ex_loop_capped [OF this, of "ex_fs ex_many []" 2000] obtain st' where
    loop: "expand_loop ex_capped (ex_fs ex_many []) False 0 ex_many (init_state ex_rng) = Inr st'"
    and len: "length (entries st') = 20009"
    unfolding ex_many_def by auto
  from ex_all_capped [of "ex_fs ex_many []" 2000 "init_state ex_rng"] obtain st'' where
    all: "expand_all ex_capped (ex_fs ex_many []) False ex_many (init_state ex_rng) = Inr st''"
    and len': "length (entries st'') = 22000"
    unfolding ex_many_def by (auto simp: init_state_def)
  show ?thesis
    by (simp add: ft flow3d_driving_json_def ex_fs_json loop len all len')
qed

text \<open>
  C5, amended. The expansion stops at the first record, not filtered out, at which the
  cap is reached once the records before it have been expanded: fast-test mode is set
  and more than 100000 descriptors have accumulated, or, whether or not fast-test mode
  is set, more than 20000 descriptors have accumulated and the record has an index
  above 1500. The records before that one are all gone through as if there were no cap,
  and so is the whole manifest when there is no such record.
\<close>

theorem expansion_stops_at_first_cap:
  "expand_loop a fs validate i es st =
     expand_all a fs validate (take (stop_index a fs validate i es st) es) st"
  by (rule expand_loop_stop)

lemma ex_capped_at:
  assumes "m < 2000"
  shows "capped_at ex_capped fs False 0 ex_many (init_state g) m = (1819 \<le> m)"
proof -
  have flags: "\<not> args_synth_no_filter ex_capped" "\<not> args_fast_test ex_capped"
    by (simp_all add: ex_capped_def ex_args_def)
  from assms have tk: "take m ex_many = replicate m (ex_entry ''a'')"
    by (simp add: ex_many_def min_def)
  from ex_all_capped [of fs m "init_state g"] obtain st' where
    "expand_all ex_capped fs False (replicate m (ex_entry ''a'')) (init_state g) = Inr st'"
    "length (entries st') = 11 * m"
    by (auto simp: init_state_def)
  then show ?thesis
    unfolding capped_at_def tk by (auto simp: skipped_def cap_reached_def flags)
qed

lemma ex_stop_index:
  "stop_index ex_capped fs False 0 ex_many (init_state g) = 1819"
proof -
  have len: "length ex_many = 2000"
    by (simp add: ex_many_def)
  have "find (capped_at ex_capped fs False 0 ex_many (init_state g)) [0..<2000] = Some 1819"
    unfolding find_Some_iff
    by (rule exI [of _ 1819]) (simp add: ex_capped_at)
  then show ?thesis
    by (simp add: stop_index_def len)
qed

theorem expansion_stops_at_first_cap_witness:
  "stop_index ex_capped (ex_fs ex_many []) False 0 ex_many (init_state ex_rng) = 1819
   \<and> expand_loop ex_capped (ex_fs ex_many []) False 0 ex_many (init_state ex_rng)
       = expand_all ex_capped (ex_fs ex_many []) False (take 1819 ex_many) (init_state ex_rng)"
  using expansion_stops_at_first_cap
          [of ex_capped "ex_fs ex_many []" False 0 ex_many "init_state ex_rng"]
  by (simp add: ex_stop_index)

section \<open>Access to a synthetic sample: proofs\<close>

lemma bndr_eq_Inr:
  "bndr m f g = Inr r \<longleftrightarrow> (\<exists>x g'. m g = Inr (x, g') \<and> f x g' = Inr r)"
  by (cases "m g") (auto simp: bndr_def)

lemma lift_eq_Inr: "lift m g = Inr r \<longleftrightarrow> (\<exists>x. m = Inr x \<and> r = (x, g))"
  by (cases m) (auto simp: lift_def)

lemma get_item_reads_right:
  assumes "get_item c d g = Inr r"
  shows "1 < length (disparity d)"
proof -
  from assms obtain p1 where "idx (disparity d) 1 = Inr p1"
    by (auto simp: get_item_def bndr_eq_Inr lift_eq_Inr split: prod.splits)
  then show ?thesis
    by (simp add: idx_def split: if_splits)
qed

lemma bndr_simps [simp]:
  "bndr (ret x) f = f x" "bndr (lift (Inr x)) f = f x" "bndr (lift (Inl e)) f g = Inl e"
  by (simp_all add: bndr_def ret_def lift_def fun_eq_iff)

lemma get_item_single:
  assumes "length (disparity d) < 2"
  shows "get_item c d g = (case load_stage c d g of Inl e \<Rightarrow> Inl e | Inr x \<Rightarrow> Inl IndexError)"
proof -
  from assms have "idx (disparity d) 1 = Inl IndexError"
    by (simp add: idx_def)
  then show ?thesis
    by (cases "load_stage c d g") (auto simp: get_item_def bndr_def lift_def split: prod.splits)
qed

lemma lift_Inr: "lift (Inr x) = ret x"
  by (simp add: lift_def ret_def fun_eq_iff)

lemma map_act_ret: "map_act (\<lambda>x. ret (f x)) xs g = Inr (map f xs, g)"
  by (induction xs arbitrary: g) (simp_all add: ret_def)

lemma ex_read_img: "read_img ex_lib = (\<lambda>f. ret ())"
  by (simp add: read_img_def ex_lib_def idx_def fun_eq_iff)

lemma ex_tensor_of: "tensor_of ex_lib x = Inr ()"
  by (simp add: tensor_of_def ex_lib_def)

lemma ex_to_tensor_arr: "to_tensor_arr ex_lib = (\<lambda>x. ret ())"
proof -
  have "is_ndarray ex_lib x" for x
    by (simp add: ex_lib_def)
  then show ?thesis
    by (simp add: to_tensor_arr_def ex_tensor_of ret_def lift_def fun_eq_iff)
qed

lemma ex_load_single: "\<exists>x g'. load_stage ex_lib ex_single g = Inr (x, g')"
proof -
  obtain uv g1 where s: "sample_uv 540 720 g = (uv, g1)"
    by (metis surj_pair)
  show ?thesis
    unfolding load_stage_def ex_read_img ex_to_tensor_arr
    by (simp add: bndr_def map_act_ret s ex_single_def guided_stage_def gamma_stage_def ret_def
        lift_def idx_def to_tensor_path_def ex_read_img ex_tensor_of del: map_act.simps)
qed

text \<open>
  C1. A descriptor with a single disparity path cannot be accessed. \<open>get_item\<close> reads
  \<open>self.disparity[1]\<close> right after the left disparity, whether or not the
  \<open>disparity_right\<close> flag is set: when the images and the left disparity cannot be
  loaded it fails with their error, and when they are loaded it raises \<open>IndexError\<close>.
  It never returns.
\<close>

theorem get_item_single_disparity_fails:
  assumes "length (disparity d) < 2"
  shows "get_item c d g = (case load_stage c d g of Inl e \<Rightarrow> Inl e | Inr x \<Rightarrow> Inl IndexError)"
  using assms by (rule get_item_single)

theorem get_item_single_disparity_fails_witness:
  "length (disparity ex_single) < 2 \<and> \<not> disparity_right ex_single
   \<and> get_item ex_lib ex_single ex_rng = Inl IndexError"
proof -
  have l: "length (disparity ex_single) < 2" and f: "\<not> disparity_right ex_single"
    by (simp_all add: ex_single_def)
  from ex_load_single obtain x g' where "load_stage ex_lib ex_single ex_rng = Inr (x, g')"
    by blast
  with get_item_single_disparity_fails [OF l, of ex_lib ex_rng] l f show ?thesis
    by simp
qed

lemma stages_without_shift:
  "read_img (c\<lparr>inputs_disparity_shift := h\<rparr>) = read_img c"
  "tensor_of (c\<lparr>inputs_disparity_shift := h\<rparr>) = tensor_of c"
  "gamma_at (c\<lparr>inputs_disparity_shift := h\<rparr>) = gamma_at c"
  "crop_pair (c\<lparr>inputs_disparity_shift := h\<rparr>) = crop_pair c"
  "crop_one (c\<lparr>inputs_disparity_shift := h\<rparr>) = crop_one c"
  by (simp_all add: read_img_def tensor_of_def gamma_at_def crop_pair_def crop_one_def fun_eq_iff
      cong: if_cong)

lemma stages_without_shift2:
  "to_tensor_arr (c\<lparr>inputs_disparity_shift := h\<rparr>) = to_tensor_arr c"
  "to_tensor_path (c\<lparr>inputs_disparity_shift := h\<rparr>) = to_tensor_path c"
  "guided_stage (c\<lparr>inputs_disparity_shift := h\<rparr>) = guided_stage c"
  "gamma_stage (c\<lparr>inputs_disparity_shift := h\<rparr>) = gamma_stage c"
  "vertical_stage (c\<lparr>inputs_disparity_shift := h\<rparr>) = vertical_stage c"
  by (simp_all add: to_tensor_arr_def to_tensor_path_def guided_stage_def gamma_stage_def
      vertical_stage_def stages_without_shift fun_eq_iff cong: if_cong option.case_cong)

lemma stages_without_shift3:
  "load_stage (c\<lparr>inputs_disparity_shift := h\<rparr>) = load_stage c"
  "gt_stage (c\<lparr>inputs_disparity_shift := h\<rparr>) = gt_stage c"
  by (simp_all add: load_stage_def gt_stage_def stages_without_shift stages_without_shift2
      fun_eq_iff cong: if_cong option.case_cong)

lemma shift_stage_distance:
  "shift_stage
     (c\<lparr>inputs_disparity_shift := \<lambda>xs ds k. inputs_disparity_shift c xs ds (shift_distance d)\<rparr>)
     d = shift_stage c d"
  by (simp add: shift_stage_def fun_eq_iff cong: if_cong)

lemma get_item_distance:
  "get_item
     (c\<lparr>inputs_disparity_shift := \<lambda>xs ds k. inputs_disparity_shift c xs ds (shift_distance d)\<rparr>)
     d = get_item c d"
  by (simp add: get_item_def stages_without_shift stages_without_shift2 stages_without_shift3
      shift_stage_distance cong: if_cong)

lemma get_item_self:
  assumes "get_item c d g = Inr ((batch, d'), g')"
  shows "d' = d"
  using assms
  by (auto simp: get_item_def bndr_eq_Inr ret_def split: prod.splits)

lemma get_items_self:
  "get_items c d n g = Inr ((batches, d'), g') \<Longrightarrow> d' = d \<and> length batches = n"
proof (induction n arbitrary: g batches)
  case 0
  then show ?case by auto
next
  case (Suc n)
  from Suc.prems obtain batch d1 g1 bs where
    one: "get_item c d g = Inr ((batch, d1), g1)"
    and rest: "get_items c d1 n g1 = Inr ((bs, d'), g')"
    and b: "batches = batch # bs"
    by (auto split: sum.splits prod.splits)
  from get_item_self [OF one] have "d1 = d" .
  with Suc.IH [of g1 bs] rest b show ?case
    by simp
qed

lemma ex_get_item_runs: "\<exists>batch d' g'. get_item ex_lib ex_shifted g = Inr ((batch, d'), g')"
proof -
  obtain uv g1 where s: "sample_uv 540 720 g = (uv, g1)"
    by (metis surj_pair)
  obtain u v where uv: "uv = (u, v)"
    by (cases uv) auto
  have load: "load_stage ex_lib ex_shifted g = Inr (([(), (), (), ()], (u, v), ()), g1)"
    unfolding load_stage_def ex_read_img ex_to_tensor_arr
    by (simp add: bndr_def map_act_ret s uv ex_shifted_def guided_stage_def gamma_stage_def
        ret_def lift_def idx_def to_tensor_path_def ex_read_img ex_tensor_of
        del: map_act.simps)
  have p: "to_tensor_path ex_lib f = ret ()" for f
    by (simp add: to_tensor_path_def ex_read_img ex_tensor_of fun_eq_iff bndr_def ret_def lift_def)
  have fields: "unsqueeze0 ex_lib = (\<lambda>x. Inr ())" "index0 ex_lib = (\<lambda>x. Inr ())"
    "inputs_disparity_shift ex_lib = (\<lambda>xs ds k. ret (xs, ds))"
    by (simp_all add: ex_lib_def)
  have sh: "shift_stage ex_lib ex_shifted ([(), (), (), ()], (), ()) = ret ([(), (), (), ()], (), ())"
    unfolding shift_stage_def fields lift_Inr
    by (simp add: ex_shifted_def fun_eq_iff bndr_def map_act_ret ret_def lift_def unpack2_def
        del: map_act.simps)
  have lib: "gather_vu ex_lib x v u = Inr ()" "index0 ex_lib x = Inr ()"
    "stack_points ex_lib u v x = Inr ()" for x
    by (simp_all add: ex_lib_def)
  have flags: "rgb_gt ex_shifted = None" "\<not> vertical_scale ex_shifted"
    "\<not> disparity_right ex_shifted" "idx (disparity ex_shifted) (Suc 0) = Inr ''D1.pfm''"
    by (simp_all add: ex_shifted_def idx_def)
  show ?thesis
    by (simp add: get_item_def bndr_def load p sh lib flags gt_stage_def vertical_stage_def
        ret_def lift_def)
qed

text \<open>
  C9. The constructor draws the shift distance once, in \<open>[8, 16]\<close>. Any number of
  accesses leaves the descriptor as it was constructed, and an access hands
  \<open>inputs_disparity_shift\<close> no other distance than the one stored: replacing the distance
  argument of every such call by the stored one changes nothing.
\<close>

theorem shift_distance_fixed_at_construction:
  assumes "EntityFlying3d_init imgs disp gn gam sf vs nt dr gt g0 = (d, g1)"
  shows "shift_distance d = 8 + int (tape g0 (pos g0) mod 9)
         \<and> 8 \<le> shift_distance d \<and> shift_distance d \<le> 16
         \<and> g1 = g0\<lparr>pos := Suc (pos g0)\<rparr>
         \<and> (\<forall>(c::'a lib) n g batches d' g'.
               get_items c d n g = Inr ((batches, d'), g') \<longrightarrow> d' = d \<and> length batches = n)
         \<and> (\<forall>(c::'a lib).
               get_item (c\<lparr>inputs_disparity_shift :=
                             \<lambda>xs ds k. inputs_disparity_shift c xs ds (shift_distance d)\<rparr>) d
               = get_item c d)"
proof -
  from init_fields [OF assms] have
    sd: "shift_distance d = 8 + int (tape g0 (pos g0) mod 9)"
    and g1: "g1 = g0\<lparr>pos := Suc (pos g0)\<rparr>"
    by simp_all
  have "tape g0 (pos g0) mod 9 < 9"
    by simp
  with sd have range: "8 \<le> shift_distance d \<and> shift_distance d \<le> 16"
    by linarith
  from sd range g1 get_items_self get_item_distance show ?thesis
    by blast
qed

theorem shift_distance_fixed_at_construction_witness:
  "EntityFlying3d_init [''L.png'', ''R.png'', ''L_nir.png'', ''R_nir.png'']
     [''D0.pfm'', ''D1.pfm''] None None True False Rgb False None ex_rng
     = (ex_shifted, ex_rng\<lparr>pos := 1\<rparr>)
   \<and> shift_distance ex_shifted = 8
   \<and> (\<exists>b1 b2 g'. get_items ex_lib ex_shifted 2 (ex_rng\<lparr>pos := 1\<rparr>)
                     = Inr (([b1, b2], ex_shifted), g'))"
proof -
  have i: "EntityFlying3d_init [''L.png'', ''R.png'', ''L_nir.png'', ''R_nir.png'']
     [''D0.pfm'', ''D1.pfm''] None None True False Rgb False None ex_rng
     = (ex_shifted, ex_rng\<lparr>pos := 1\<rparr>)"
    by (simp add: EntityFlying3d_init_def py_randint_def draw_def ex_rng_def ex_shifted_def)
  define ga where "ga = ex_rng\<lparr>pos := 1\<rparr>"
  obtain b1 d1 g1 where r1: "get_item ex_lib ex_shifted ga = Inr ((b1, d1), g1)"
    using ex_get_item_runs by blast
  obtain b2 d2 g2 where r2: "get_item ex_lib ex_shifted g1 = Inr ((b2, d2), g2)"
    using ex_get_item_runs by blast
  note t = shift_distance_fixed_at_construction [OF i]
  from get_item_self [OF r1] have d1: "d1 = ex_shifted" .
  have run: "get_items ex_lib ex_shifted 2 ga = Inr (([b1, b2], d2), g2)"
    by (simp add: numeral_2_eq_2 r1 d1 r2)
  with t have "d2 = ex_shifted"
    by blast
  with run have "\<exists>b1 b2 g'. get_items ex_lib ex_shifted 2 (ex_rng\<lparr>pos := 1\<rparr>)
                     = Inr (([b1, b2], ex_shifted), g')"
    unfolding ga_def by blast
  moreover have "shift_distance ex_shifted = 8"
    by (simp add: ex_shifted_def)
  ultimately show ?thesis
    using i by blast
qed

end
